theory Spec2Isabelle
  imports Complex_Main "HOL-Library.Word"
begin

section \<open>Values, configuration and errors\<close>

text \<open>
  An entry of a NumPy float array is a finite number, one of the two infinities, or NaN.
  Finite entries carry a real number: rounding is not modelled, only the classification
  that \<open>np.isfinite\<close> and \<open>np.isnan\<close> read.
\<close>

datatype npfloat = Num real | PosInf | NegInf | NaN

fun isfinite :: "npfloat \<Rightarrow> bool" where
  "isfinite (Num x) = True"
| "isfinite PosInf = False"
| "isfinite NegInf = False"
| "isfinite NaN = False"

fun isnan :: "npfloat \<Rightarrow> bool" where
  "isnan NaN = True"
| "isnan (Num x) = False"
| "isnan PosInf = False"
| "isnan NegInf = False"

text \<open>The keys of the \<open>params\<close> dictionary that \<open>train.py\<close> reads.\<close>

record params =
  len_input :: int
  batch_size :: int
  placeholder_value :: npfloat
  learning_rate :: real
  n_epochs :: int
  shuffle :: bool
  model_name :: string
  save_discriminator :: bool
  loss_weight :: real

text \<open>
  Exceptions are values. \<open>ValueError\<close> is what NumPy raises on a negative sample size
  or an empty population, \<open>TypeError\<close> what it raises on a sample size that is not an
  integer, and \<open>ExternalError\<close> stands for any exception of a collaborator that is
  not part of \<open>train.py\<close> (file loading, the windowing utility, a model call).
\<close>

datatype error = ValueError | TypeError | ExternalError

text \<open>
  An array stores its entries in its dtype. A value assigned into an array is cast to
  that dtype: a finite value whose magnitude reaches the overflow threshold of the dtype
  is stored as an infinity of its sign. The threshold is the midpoint between the
  largest finite number of the dtype and the next power of two. Within the range the
  value is kept: rounding is not modelled.
\<close>

datatype dtype = Float16 | Float32 | Float64

fun overflow_at :: "dtype \<Rightarrow> real" where
  "overflow_at Float16 = 65520"
| "overflow_at Float32 = 2 ^ 128 - 2 ^ 103"
| "overflow_at Float64 = 2 ^ 1024 - 2 ^ 970"

fun cast :: "dtype \<Rightarrow> npfloat \<Rightarrow> npfloat" where
  "cast d (Num x) =
     (if overflow_at d \<le> x then PosInf
      else if x \<le> - overflow_at d then NegInf
      else Num x)"
| "cast d PosInf = PosInf"
| "cast d NegInf = NegInf"
| "cast d NaN = NaN"

section \<open>Sampling without replacement\<close>

text \<open>
  \<open>np.random.choice(n, size = k, replace = False)\<close> returns the first \<open>k\<close> entries of a
  random permutation of \<open>range(n)\<close>, and raises \<open>ValueError\<close> when \<open>k\<close> is negative or
  exceeds \<open>n\<close>. The random source is an explicit argument: a stream of raw draws. Each
  draw picks one of the indices still in the pool, so the possible results are the
  sequences of \<open>k\<close> different indices below \<open>n\<close>.
\<close>

type_synonym rng = "nat \<Rightarrow> nat"

definition remove_nth :: "nat \<Rightarrow> 'a list \<Rightarrow> 'a list" where
  "remove_nth i xs = take i xs @ drop (Suc i) xs"

fun draw :: "rng \<Rightarrow> nat \<Rightarrow> nat list \<Rightarrow> nat list" where
  "draw g 0 pool = []"
| "draw g (Suc k) pool =
     (if pool = [] then []
      else (let i = g 0 mod length pool
            in pool ! i # draw (\<lambda>j. g (Suc j)) k (remove_nth i pool)))"

definition random_choice :: "rng \<Rightarrow> int \<Rightarrow> int \<Rightarrow> error + nat list" where
  "random_choice g n k =
     (if k < 0 \<or> n < k then Inl ValueError else Inr (draw g (nat k) [0..<nat n]))"

section \<open>Batch preparation\<close>

text \<open>
  A 2-D array is the list of its rows, a 3-D array the list of its 2-D slices.
  The windowing utility \<open>tools.RNN_univariate_processing\<close> and the corruption policy
  \<open>deterioration.apply\<close> are collaborators of \<open>process_series\<close>; they are arguments
  of the model. The corruption policy draws its own random numbers: any one outcome of
  its single call is a function of the sampled rows. The dtype of the array that the
  corruption policy returns, which is the dtype of the loaded series unless the policy
  changes it, is the argument \<open>dt\<close>.
\<close>

type_synonym windowing = "npfloat list \<Rightarrow> int \<Rightarrow> error + npfloat list list"
type_synonym corruption = "npfloat list list \<Rightarrow> params \<Rightarrow> npfloat list list"

text \<open>Line 28, \<open>series[np.isfinite(series)]\<close>: a boolean mask, read left to right.\<close>

definition finite_mask :: "npfloat list \<Rightarrow> npfloat list" where
  "finite_mask series = filter isfinite series"

text \<open>
  Line 30: the sample size is \<open>np.min([series.shape[0], params['batch_size']])\<close>. The
  number of rows is below \<open>2^63\<close>. NumPy builds an array of the two integers: both in
  the signed 64-bit range give an integer minimum; a batch size from \<open>2^63\<close> and below
  \<open>2^64\<close> makes it an array of floats, and a batch size below \<open>-2^63\<close> one of Python
  objects whose minimum is that batch size: in both cases \<open>np.random.choice\<close> refuses
  the size with a \<open>TypeError\<close>. A batch size from \<open>2^64\<close> makes it an array of Python
  objects whose minimum is the number of rows.
\<close>

definition sample_rows :: "rng \<Rightarrow> 'a list \<Rightarrow> params \<Rightarrow> error + nat list" where
  "sample_rows g windows p =
     (if batch_size p < - (2 ^ 63) \<or> (2 ^ 63 \<le> batch_size p \<and> batch_size p < 2 ^ 64)
        then Inl TypeError
      else random_choice g (int (length windows))
             (min (int (length windows)) (batch_size p)))"

text \<open>
  Line 34, \<open>deteriorated[np.isnan(deteriorated)] = params['placeholder_value']\<close>: the
  placeholder is cast to the dtype of the array it is written into.
\<close>

definition fill_placeholder ::
  "dtype \<Rightarrow> npfloat \<Rightarrow> npfloat list list \<Rightarrow> npfloat list list" where
  "fill_placeholder dt v rows = map (map (\<lambda>x. if isnan x then cast dt v else x)) rows"

text \<open>\<open>np.expand_dims(a, axis = -1)\<close> on a 2-D array.\<close>

definition expand_dims :: "'a list list \<Rightarrow> 'a list list list" where
  "expand_dims rows = map (map (\<lambda>x. [x])) rows"

definition process_series ::
  "windowing \<Rightarrow> corruption \<Rightarrow> dtype \<Rightarrow> rng \<Rightarrow> npfloat list \<Rightarrow> params
     \<Rightarrow> error + (npfloat list list list \<times> npfloat list list list)" where
  "process_series window apply dt g series p =
     (case window (finite_mask series) (len_input p) of
        Inl e \<Rightarrow> Inl e
      | Inr windows \<Rightarrow>
          (case sample_rows g windows p of
             Inl e \<Rightarrow> Inl e
           | Inr sample \<Rightarrow>
               (let rows = map (\<lambda>i. windows ! i) sample;
                    deteriorated = fill_placeholder dt (placeholder_value p) (apply rows p)
                in Inr (expand_dims rows, expand_dims deteriorated))))"

text \<open>
  Modelled from the spec: \<open>tools.RNN_univariate_processing\<close> is not part of the source
  at hand. The spec describes it as slicing a series into overlapping windows of the
  configured length, and as the place where a series shorter than the window fails.
\<close>

definition RNN_univariate_processing :: windowing where
  "RNN_univariate_processing series n =
     (if n \<le> 0 \<or> int (length series) < n then Inl ExternalError
      else Inr (map (\<lambda>i. take (nat n) (drop i series)) [0..<length series - nat n + 1]))"

text \<open>
  The shape of a 3-D array: \<open>n\<close> slices of \<open>m\<close> rows of \<open>k\<close> entries. With no slice
  the two inner extents are not recorded by the nested lists.
\<close>

definition has_shape :: "'a list list list \<Rightarrow> nat \<Rightarrow> nat \<Rightarrow> nat \<Rightarrow> bool" where
  "has_shape a n m k \<longleftrightarrow>
     length a = n \<and> (\<forall>row\<in>set a. length row = m \<and> (\<forall>cell\<in>set row. length cell = k))"

subsection \<open>Concrete collaborators and configuration\<close>

text \<open>
  Inputs on which the model is run: a windowing utility that returns the series it is
  given as one window, a corruption policy that changes nothing, one that marks the
  first entry of every window as missing, one that overflows every entry, a random
  source that always draws zero, a small configuration, and the same configuration
  with a placeholder beyond the range of 32-bit floats.
\<close>

definition single_window :: windowing where
  "single_window series n = Inr [series]"

definition no_corruption :: corruption where
  "no_corruption rows p = rows"

definition nan_corruption :: corruption where
  "nan_corruption rows p = map (\<lambda>r. case r of [] \<Rightarrow> [] | x # xs \<Rightarrow> NaN # xs) rows"

definition overflow_corruption :: corruption where
  "overflow_corruption rows p = map (map (\<lambda>x. PosInf)) rows"

definition zero_rng :: rng where
  "zero_rng i = 0"

definition example_params :: params where
  "example_params = \<lparr>len_input = 2, batch_size = 2, placeholder_value = Num 0,
     learning_rate = 1 / 1000, n_epochs = 1, shuffle = False, model_name = ''seq2seq'',
     save_discriminator = True, loss_weight = 1 / 2\<rparr>"

definition huge_placeholder_params :: params where
  "huge_placeholder_params = example_params\<lparr>placeholder_value := Num (10 ^ 39)\<rparr>"

section \<open>Losses of the adversarial training steps\<close>

text \<open>
  A tensor is its shape and its entries in row-major order. The entries are real
  numbers: the losses are modelled in exact arithmetic, without the rounding of 32-bit
  floats.
\<close>

record tensor =
  shape :: "nat list"
  data :: "real list"

definition ones_like :: "tensor \<Rightarrow> tensor" where
  "ones_like t = \<lparr>shape = shape t, data = map (\<lambda>x. 1) (data t)\<rparr>"

definition zeros_like :: "tensor \<Rightarrow> tensor" where
  "zeros_like t = \<lparr>shape = shape t, data = map (\<lambda>x. 0) (data t)\<rparr>"

text \<open>
  \<open>tf.keras.losses.MeanAbsoluteError\<close>: the mean of the absolute differences of two
  tensors of one shape. For an empty tensor the framework returns NaN; the division by
  zero below returns 0 there.
\<close>

definition MAE :: "tensor \<Rightarrow> tensor \<Rightarrow> real" where
  "MAE y_true y_pred =
     sum_list (map2 (\<lambda>t p. \<bar>p - t\<bar>) (data y_true) (data y_pred)) / real (length (data y_pred))"

text \<open>
  \<open>tf.random.uniform(shape, minval, maxval)\<close> belongs to the framework. Its sampler
  turns the 23 low bits of a raw 32-bit draw into a fraction \<open>u\<close> of the unit interval
  and returns \<open>u * (maxval - minval) + minval\<close> for every entry. The random source is
  an explicit stream of raw draws, returned advanced by the number of entries drawn.
\<close>

unbundle bit_operations_syntax

type_synonym tf_rng = "nat \<Rightarrow> 32 word"

definition uint32_to_float :: "32 word \<Rightarrow> real" where
  "uint32_to_float x = real (unat (x AND 0x7FFFFF)) / 2 ^ 23"

definition random_uniform :: "tf_rng \<Rightarrow> nat list \<Rightarrow> real \<Rightarrow> real \<Rightarrow> tensor \<times> tf_rng" where
  "random_uniform g shp minval maxval =
     (let n = prod_list shp
      in (\<lparr>shape = shp,
            data = map (\<lambda>i. uint32_to_float (g i) * (maxval - minval) + minval) [0..<n]\<rparr>,
          \<lambda>i. g (i + n)))"

text \<open>
  The binary cross-entropy on logits and the two networks are arguments of the model:
  a loss function of (targets, scores) and two functions on tensors. A training step
  is modelled by the two losses it computes and returns; the parameter updates that the
  optimizers derive from them are the framework's.
\<close>

type_synonym loss_fn = "tensor \<Rightarrow> tensor \<Rightarrow> real"
type_synonym network = "tensor \<Rightarrow> tensor"

subsection \<open>\<open>train_GAN\<close>, lines 134 to 173\<close>

definition GAN_generator_loss :: "loss_fn \<Rightarrow> tensor \<Rightarrow> real" where
  "GAN_generator_loss cross_entropy discriminator_guess_fakes =
     cross_entropy (ones_like discriminator_guess_fakes) discriminator_guess_fakes"

definition GAN_discriminator_loss ::
  "loss_fn \<Rightarrow> tf_rng \<Rightarrow> tensor \<Rightarrow> tensor \<Rightarrow> real \<times> tf_rng" where
  "GAN_discriminator_loss cross_entropy g discriminator_guess_reals discriminator_guess_fakes =
     (let (fake_targets, g1) = random_uniform g (shape discriminator_guess_fakes) 0.0 0.2;
          loss_fakes = cross_entropy fake_targets discriminator_guess_fakes;
          (real_targets, g2) = random_uniform g1 (shape discriminator_guess_reals) 0.8 1;
          loss_reals = cross_entropy real_targets discriminator_guess_reals
      in (loss_fakes + loss_reals, g2))"

definition GAN_train_step ::
  "loss_fn \<Rightarrow> network \<Rightarrow> network \<Rightarrow> tf_rng \<Rightarrow> tensor \<Rightarrow> tensor \<Rightarrow> (real \<times> real) \<times> tf_rng" where
  "GAN_train_step cross_entropy generator discriminator g deteriorated real_example =
     (let generator_imputation = generator deteriorated;
          discriminator_guess_fakes = discriminator generator_imputation;
          discriminator_guess_reals = discriminator real_example;
          generator_current_loss = GAN_generator_loss cross_entropy discriminator_guess_fakes;
          (discriminator_current_loss, g') =
             GAN_discriminator_loss cross_entropy g discriminator_guess_reals
               discriminator_guess_fakes
      in ((generator_current_loss, discriminator_current_loss), g'))"

subsection \<open>\<open>train_partial_GAN\<close>, lines 270 to 305\<close>

definition partial_GAN_generator_loss ::
  "loss_fn \<Rightarrow> tensor \<Rightarrow> tensor \<Rightarrow> tensor \<Rightarrow> real \<Rightarrow> real" where
  "partial_GAN_generator_loss cross_entropy batch deteriorated discriminator_guess_fakes w =
     (let mae_loss = MAE batch deteriorated;
          gan_loss = cross_entropy (ones_like discriminator_guess_fakes) discriminator_guess_fakes
      in mae_loss * w + gan_loss * (1 - w))"

definition partial_GAN_discriminator_loss :: "loss_fn \<Rightarrow> tensor \<Rightarrow> tensor \<Rightarrow> real" where
  "partial_GAN_discriminator_loss cross_entropy discriminator_guess_reals
       discriminator_guess_fakes =
     (let loss_fakes =
            cross_entropy (zeros_like discriminator_guess_fakes) discriminator_guess_fakes;
          loss_reals =
            cross_entropy (ones_like discriminator_guess_reals) discriminator_guess_reals
      in loss_fakes + loss_reals)"

definition partial_GAN_train_step ::
  "loss_fn \<Rightarrow> network \<Rightarrow> network \<Rightarrow> tensor \<Rightarrow> tensor \<Rightarrow> tensor \<Rightarrow> real \<Rightarrow> real \<times> real" where
  "partial_GAN_train_step cross_entropy generator discriminator batch deteriorated
       real_example w =
     (let generator_imputation = generator deteriorated;
          discriminator_guess_fakes = discriminator generator_imputation;
          discriminator_guess_reals = discriminator real_example;
          generator_current_loss =
            partial_GAN_generator_loss cross_entropy batch deteriorated
              discriminator_guess_fakes w;
          discriminator_current_loss =
            partial_GAN_discriminator_loss cross_entropy discriminator_guess_reals
              discriminator_guess_fakes
      in (generator_current_loss, discriminator_current_loss))"

subsection \<open>Concrete tensors, a network and a random source\<close>

text \<open>
  A clean batch of one window, the same window with its first entry missing and
  replaced by the placeholder 0, a generator that reconstructs the clean batch, two
  discriminator scores, and a random source whose every draw is the fraction one half.
\<close>

definition clean_example :: tensor where
  "clean_example = \<lparr>shape = [1, 2, 1], data = [1, 2]\<rparr>"

definition corrupted_example :: tensor where
  "corrupted_example = \<lparr>shape = [1, 2, 1], data = [0, 2]\<rparr>"

definition perfect_generator :: network where
  "perfect_generator deteriorated = clean_example"

definition example_scores :: tensor where
  "example_scores = \<lparr>shape = [2, 1], data = [3, -1]\<rparr>"

definition half_rng :: tf_rng where
  "half_rng i = 0x400000"

section \<open>The training loops\<close>

text \<open>
  A run of a training function is modelled by the trace of what it does to the outside:
  the gradient steps (one per call of \<open>train_on_batch\<close> or \<open>train_step\<close>), the progress
  reports printed, and the model files written. The trace ends with \<open>None\<close> on normal
  completion and with the exception otherwise.

  The world the run sees: the working directory, the directory listings, and for every
  call into a collaborator (loading a file, \<open>process_series\<close>, a network, saving)
  whether it raises. The training part of iteration \<open>i\<close> of epoch \<open>e\<close> raises when
  \<open>step_raises w e i\<close>, its reporting part when \<open>report_raises w e i\<close>. Which file an
  iteration loads is not part of the trace, so the shuffle of line 85, which keeps the
  number of files, is left out.
\<close>

datatype network_role = Seq2seq | Generator | Discriminator

datatype event =
    GradientStep nat nat
  | ProgressReport nat nat
  | Saved network_role string

record world =
  getcwd :: string
  listdir :: "string \<Rightarrow> error + string list"
  step_raises :: "nat \<Rightarrow> nat \<Rightarrow> bool"
  report_raises :: "nat \<Rightarrow> nat \<Rightarrow> bool"
  save_raises :: "string \<Rightarrow> bool"

text \<open>
  Lines 71 to 79: list a data directory and drop its readme and \<open>.gitignore\<close>, each at
  its first occurrence, as \<open>list.remove\<close> does.
\<close>

definition data_files :: "world \<Rightarrow> string \<Rightarrow> string \<Rightarrow> error + string list" where
  "data_files w folder readme =
     (case listdir w (getcwd w @ ''/data_processed/'' @ folder @ ''/'') of
        Inl e \<Rightarrow> Inl e
      | Inr files \<Rightarrow> Inr (remove1 ''.gitignore'' (remove1 readme files)))"

text \<open>
  The inner loop, \<open>for iteration in range(X_files.shape[0])\<close>. In the adversarial loops
  the second real example is chosen by \<open>np.random.choice(np.delete(X_files, iteration))\<close>,
  which raises on an empty array, that is with a single training file; the validation
  file of a report is chosen by \<open>np.random.choice(V_files)\<close>, which raises when there
  is none.
\<close>

fun iterations ::
  "bool \<Rightarrow> world \<Rightarrow> nat \<Rightarrow> nat \<Rightarrow> nat \<Rightarrow> nat list \<Rightarrow> event list \<times> error option" where
  "iterations adversarial w n_train n_val epoch [] = ([], None)"
| "iterations adversarial w n_train n_val epoch (iteration # rest) =
     (if step_raises w epoch iteration then ([], Some ExternalError)
      else if adversarial \<and> n_train - 1 = 0 then ([], Some ValueError)
      else if iteration mod 100 = 0 then
        (if n_val = 0 then ([GradientStep epoch iteration], Some ValueError)
         else if report_raises w epoch iteration
           then ([GradientStep epoch iteration], Some ExternalError)
         else (case iterations adversarial w n_train n_val epoch rest of
                 (evs, r) \<Rightarrow>
                   (GradientStep epoch iteration # ProgressReport epoch iteration # evs, r)))
      else (case iterations adversarial w n_train n_val epoch rest of
              (evs, r) \<Rightarrow> (GradientStep epoch iteration # evs, r)))"

text \<open>The outer loop, \<open>for epoch in range(params['n_epochs'])\<close>.\<close>

fun epochs ::
  "bool \<Rightarrow> world \<Rightarrow> nat \<Rightarrow> nat \<Rightarrow> nat list \<Rightarrow> event list \<times> error option" where
  "epochs adversarial w n_train n_val [] = ([], None)"
| "epochs adversarial w n_train n_val (epoch # rest) =
     (case iterations adversarial w n_train n_val epoch [0..<n_train] of
        (evs, Some e) \<Rightarrow> (evs, Some e)
      | (evs, None) \<Rightarrow>
          (case epochs adversarial w n_train n_val rest of (evs', r) \<Rightarrow> (evs @ evs', r)))"

text \<open>
  The part the three training functions share, up to \<open>Training complete\<close>: the two
  listings and the loops.
\<close>

definition training_session :: "bool \<Rightarrow> world \<Rightarrow> params \<Rightarrow> event list \<times> error option" where
  "training_session adversarial w p =
     (case data_files w ''Training'' ''readme_training.md'' of
        Inl e \<Rightarrow> ([], Some e)
      | Inr X_files \<Rightarrow>
          (case data_files w ''Validation'' ''readme_validation.md'' of
             Inl e \<Rightarrow> ([], Some e)
           | Inr V_files \<Rightarrow>
               epochs adversarial w (length X_files) (length V_files) [0..<nat (n_epochs p)]))"

definition save :: "world \<Rightarrow> network_role \<Rightarrow> string \<Rightarrow> event list \<times> error option" where
  "save w role path =
     (if save_raises w path then ([], Some ExternalError) else ([Saved role path], None))"

definition train_vanilla_seq2seq :: "world \<Rightarrow> params \<Rightarrow> event list \<times> error option" where
  "train_vanilla_seq2seq w p =
     (case training_session False w p of
        (evs, Some e) \<Rightarrow> (evs, Some e)
      | (evs, None) \<Rightarrow>
          (case save w Seq2seq (getcwd w @ ''/saved_models/'' @ model_name p @ ''.h5'') of
             (s, r) \<Rightarrow> (evs @ s, r)))"

definition train_GAN :: "world \<Rightarrow> params \<Rightarrow> event list \<times> error option" where
  "train_GAN w p =
     (case training_session True w p of
        (evs, Some e) \<Rightarrow> (evs, Some e)
      | (evs, None) \<Rightarrow>
          (case save w Generator (getcwd w @ ''/saved_models/'' @ model_name p @ ''.h5'') of
             (s, Some e) \<Rightarrow> (evs @ s, Some e)
           | (s, None) \<Rightarrow>
               (if save_discriminator p then
                  (case save w Discriminator
                          (getcwd w @ ''/saved_models/'' @ model_name p @ ''_discriminator.h5'') of
                     (s', r) \<Rightarrow> (evs @ s @ s', r))
                else (evs @ s, None))))"

definition train_partial_GAN :: "world \<Rightarrow> params \<Rightarrow> event list \<times> error option" where
  "train_partial_GAN w p =
     (case training_session True w p of
        (evs, Some e) \<Rightarrow> (evs, Some e)
      | (evs, None) \<Rightarrow>
          (case save w Generator (getcwd w @ ''/saved_models/'' @ model_name p @ ''.h5'') of
             (s, Some e) \<Rightarrow> (evs @ s, Some e)
           | (s, None) \<Rightarrow>
               (if save_discriminator p then
                  (case save w Discriminator
                          (getcwd w @ ''/saved_models/'' @ model_name p @ ''_discriminator.h5'') of
                     (s', r) \<Rightarrow> (evs @ s @ s', r))
                else (evs @ s, None))))"

subsection \<open>Reading a trace\<close>

fun reports :: "event list \<Rightarrow> (nat \<times> nat) list" where
  "reports [] = []"
| "reports (ProgressReport epoch iteration # evs) = (epoch, iteration) # reports evs"
| "reports (ev # evs) = reports evs"

fun gradient_steps :: "event list \<Rightarrow> (nat \<times> nat) list" where
  "gradient_steps [] = []"
| "gradient_steps (GradientStep epoch iteration # evs) = (epoch, iteration) # gradient_steps evs"
| "gradient_steps (ev # evs) = gradient_steps evs"

fun saves :: "event list \<Rightarrow> (network_role \<times> string) list" where
  "saves [] = []"
| "saves (Saved role path # evs) = (role, path) # saves evs"
| "saves (ev # evs) = saves evs"

text \<open>
  What the specification expects of a completed run over \<open>file_count\<close> training files:
  in every epoch one gradient step per file, and a report at the iterations divisible
  by 100.
\<close>

definition expected_reports :: "nat \<Rightarrow> nat \<Rightarrow> (nat \<times> nat) list" where
  "expected_reports epoch_count file_count =
     concat (map (\<lambda>e. map (Pair e) (filter (\<lambda>i. i mod 100 = 0) [0..<file_count]))
               [0..<epoch_count])"

definition expected_steps :: "nat \<Rightarrow> nat \<Rightarrow> (nat \<times> nat) list" where
  "expected_steps epoch_count file_count =
     concat (map (\<lambda>e. map (Pair e) [0..<file_count]) [0..<epoch_count])"

subsection \<open>A concrete world\<close>

text \<open>
  Three training files beside a readme, one validation file beside a \<open>.gitignore\<close>,
  and no call that raises.
\<close>

definition example_listdir :: "string \<Rightarrow> error + string list" where
  "example_listdir path =
     (if path = ''/home/data_processed/Training/''
        then Inr [''a.npy'', ''readme_training.md'', ''b.npy'', ''c.npy'']
      else if path = ''/home/data_processed/Validation/''
        then Inr [''.gitignore'', ''v.npy'']
      else Inl ExternalError)"

definition never_raises :: "nat \<Rightarrow> nat \<Rightarrow> bool" where
  "never_raises epoch iteration = False"

definition never_fails :: "string \<Rightarrow> bool" where
  "never_fails path = False"

definition example_world :: world where
  "example_world = \<lparr>getcwd = ''/home'', listdir = example_listdir,
     step_raises = never_raises, report_raises = never_raises, save_raises = never_fails\<rparr>"

definition quiet_params :: params where
  "quiet_params = example_params\<lparr>save_discriminator := False\<rparr>"

section \<open>Batch preparation on a store of arrays\<close>

text \<open>
  To follow which array each statement of \<open>process_series\<close> writes, arrays live in a
  store and variables hold addresses. A new array is allocated at the end of the store.
  The statements that make a new array are the boolean mask of line 28, the windowing
  utility, the index array of line 31, \<open>np.copy\<close>, and \<open>np.expand_dims\<close> (a view in
  NumPy; nothing is written after it, so the model gives the reshaped array a cell of
  its own). The corruption policy either writes into the array it is given and returns
  it, or returns a new array: the flag \<open>in_place\<close> covers both. Line 34 writes in
  place into whatever the policy returned.
\<close>

datatype ndarray =
    Array1 "npfloat list"
  | Array2 "npfloat list list"
  | Array3 "npfloat list list list"

type_synonym store = "ndarray list"
type_synonym addr = nat

definition alloc :: "store \<Rightarrow> ndarray \<Rightarrow> store \<times> addr" where
  "alloc h a = (h @ [a], length h)"

text \<open>The entries of an array in row-major order, as a boolean mask selects them.\<close>

fun entries :: "ndarray \<Rightarrow> npfloat list" where
  "entries (Array1 xs) = xs"
| "entries (Array2 rows) = concat rows"
| "entries (Array3 slices) = concat (concat slices)"

fun fill_placeholder_in_place :: "dtype \<Rightarrow> npfloat \<Rightarrow> ndarray \<Rightarrow> ndarray" where
  "fill_placeholder_in_place dt v (Array2 rows) = Array2 (fill_placeholder dt v rows)"
| "fill_placeholder_in_place dt v a = a"

fun expand_dims_of :: "ndarray \<Rightarrow> ndarray" where
  "expand_dims_of (Array2 rows) = Array3 (expand_dims rows)"
| "expand_dims_of a = a"

definition corrupt :: "corruption \<Rightarrow> bool \<Rightarrow> store \<Rightarrow> addr \<Rightarrow> params \<Rightarrow> store \<times> addr" where
  "corrupt apply in_place h a p =
     (case h ! a of
        Array2 rows \<Rightarrow>
          if in_place then (h[a := Array2 (apply rows p)], a)
          else alloc h (Array2 (apply rows p))
      | _ \<Rightarrow> (h, a))"

definition process_series_on ::
  "windowing \<Rightarrow> corruption \<Rightarrow> dtype \<Rightarrow> bool \<Rightarrow> rng \<Rightarrow> store \<Rightarrow> addr \<Rightarrow> params
     \<Rightarrow> store \<times> (error + addr \<times> addr)" where
  "process_series_on window apply dt in_place g h series p =
     (let (h1, series1) = alloc h (Array1 (finite_mask (entries (h ! series))))
      in case window (entries (h1 ! series1)) (len_input p) of
           Inl e \<Rightarrow> (h1, Inl e)
         | Inr windows \<Rightarrow>
             (let (h2, series2) = alloc h1 (Array2 windows)
              in case sample_rows g windows p of
                   Inl e \<Rightarrow> (h2, Inl e)
                 | Inr sample \<Rightarrow>
                     (let (h3, series3) = alloc h2 (Array2 (map (\<lambda>i. windows ! i) sample));
                          (h4, copy) = alloc h3 (h3 ! series3);
                          (h5, deteriorated) = corrupt apply in_place h4 copy p;
                          h6 = h5[deteriorated :=
                                 fill_placeholder_in_place dt (placeholder_value p)
                                   (h5 ! deteriorated)];
                          (h7, out1) = alloc h6 (expand_dims_of (h6 ! series3));
                          (h8, out2) = alloc h7 (expand_dims_of (h7 ! deteriorated))
                      in (h8, Inr (out1, out2)))))"

text \<open>A later store extends an earlier one when every array of the earlier is unchanged.\<close>

definition extends :: "store \<Rightarrow> store \<Rightarrow> bool" where
  "extends h h' \<longleftrightarrow> length h \<le> length h' \<and> take (length h) h' = h"

definition example_store :: store where
  "example_store = [Array1 [Num 7], Array1 [Num 1, Num 2, Num 3, NaN]]"

section \<open>Properties of sampling without replacement\<close>

lemma length_remove_nth: "i < length xs \<Longrightarrow> length (remove_nth i xs) = length xs - 1"
  by (simp add: remove_nth_def)

lemma set_remove_nth: "set (remove_nth i xs) \<subseteq> set xs"
  unfolding remove_nth_def by (auto dest: in_set_takeD in_set_dropD)

lemma distinct_remove_nth:
  assumes "distinct xs" "i < length xs"
  shows "distinct (remove_nth i xs)" "xs ! i \<notin> set (remove_nth i xs)"
proof -
  have xs: "xs = take i xs @ xs ! i # drop (Suc i) xs"
    using assms(2) by (simp add: id_take_nth_drop)
  have d: "distinct (take i xs @ xs ! i # drop (Suc i) xs)"
    using assms(1) xs by simp
  show "distinct (remove_nth i xs)" using d by (simp add: remove_nth_def)
  show "xs ! i \<notin> set (remove_nth i xs)" using d by (simp add: remove_nth_def)
qed

lemma draw_length: "k \<le> length pool \<Longrightarrow> length (draw g k pool) = k"
proof (induction k arbitrary: g pool)
  case 0
  show ?case by simp
next
  case (Suc k)
  then have ne: "pool \<noteq> []" by auto
  let ?i = "g 0 mod length pool"
  have i: "?i < length pool" using ne by simp
  have "k \<le> length (remove_nth ?i pool)"
    using Suc.prems i by (simp add: length_remove_nth)
  then have "length (draw (\<lambda>j. g (Suc j)) k (remove_nth ?i pool)) = k"
    by (rule Suc.IH)
  then show ?case using ne by (simp add: Let_def)
qed

lemma draw_subset: "set (draw g k pool) \<subseteq> set pool"
proof (induction k arbitrary: g pool)
  case 0
  show ?case by simp
next
  case (Suc k)
  show ?case
  proof (cases "pool = []")
    case True
    then show ?thesis by simp
  next
    case False
    let ?i = "g 0 mod length pool"
    have i: "?i < length pool" using False by simp
    have "set (draw (\<lambda>j. g (Suc j)) k (remove_nth ?i pool)) \<subseteq> set (remove_nth ?i pool)"
      by (rule Suc.IH)
    also have "\<dots> \<subseteq> set pool" by (rule set_remove_nth)
    finally show ?thesis using False i by (simp add: Let_def)
  qed
qed

lemma draw_distinct: "distinct pool \<Longrightarrow> distinct (draw g k pool)"
proof (induction k arbitrary: g pool)
  case 0
  show ?case by simp
next
  case (Suc k)
  show ?case
  proof (cases "pool = []")
    case True
    then show ?thesis by simp
  next
    case False
    let ?i = "g 0 mod length pool"
    let ?rest = "draw (\<lambda>j. g (Suc j)) k (remove_nth ?i pool)"
    have i: "?i < length pool" using False by simp
    have d: "distinct (remove_nth ?i pool)" and n: "pool ! ?i \<notin> set (remove_nth ?i pool)"
      using distinct_remove_nth [OF Suc.prems i] by simp_all
    have "distinct ?rest" using d by (rule Suc.IH)
    moreover have "pool ! ?i \<notin> set ?rest" using n draw_subset by blast
    ultimately show ?thesis using False by (simp add: Let_def)
  qed
qed

lemma random_choice_Inr:
  assumes "random_choice g n k = Inr sample"
  shows "int (length sample) = k" "distinct sample" "\<forall>i\<in>set sample. int i < n"
proof -
  from assms have k: "0 \<le> k" "k \<le> n" and s: "sample = draw g (nat k) [0..<nat n]"
    by (auto simp: random_choice_def split: if_splits)
  show "int (length sample) = k" using k s by (simp add: draw_length)
  show "distinct sample" using s by (simp add: draw_distinct)
  have "set sample \<subseteq> set [0..<nat n]" unfolding s by (rule draw_subset)
  then show "\<forall>i\<in>set sample. int i < n" by auto
qed

lemma sample_rows_Inr:
  assumes "sample_rows g windows p = Inr sample"
  shows "length sample = min (length windows) (nat (batch_size p))"
    and "distinct sample" and "\<forall>i\<in>set sample. i < length windows"
    and "0 \<le> batch_size p"
proof -
  from assms have c: "random_choice g (int (length windows))
                        (min (int (length windows)) (batch_size p)) = Inr sample"
    by (simp add: sample_rows_def split: if_splits)
  note r = random_choice_Inr [OF c]
  from c show b: "0 \<le> batch_size p"
    by (auto simp: random_choice_def split: if_splits)
  from r(1) b show "length sample = min (length windows) (nat (batch_size p))" by linarith
  from r(2) show "distinct sample" .
  from r(3) show "\<forall>i\<in>set sample. i < length windows" by simp
qed

lemma sample_rows_returns:
  assumes "0 \<le> batch_size p" and "batch_size p < 2 ^ 63"
  shows "\<exists>sample. sample_rows g windows p = Inr sample"
proof -
  have "\<not> (batch_size p < - (2 ^ 63) \<or> (2 ^ 63 \<le> batch_size p \<and> batch_size p < 2 ^ 64))"
    using assms by simp
  then have "sample_rows g windows p
      = random_choice g (int (length windows)) (min (int (length windows)) (batch_size p))"
    by (simp only: sample_rows_def if_False)
  moreover have "0 \<le> min (int (length windows)) (batch_size p)" using assms(1) by simp
  ultimately show ?thesis by (simp add: random_choice_def)
qed

lemma sample_rows_TypeError:
  "2 ^ 63 \<le> batch_size p \<Longrightarrow> batch_size p < 2 ^ 64 \<Longrightarrow> sample_rows g windows p = Inl TypeError"
  by (simp add: sample_rows_def)

section \<open>Properties of batch preparation\<close>

lemma process_series_Inr:
  assumes "process_series window apply dt g series p = Inr (clean, corrupted)"
  obtains windows sample where
    "window (finite_mask series) (len_input p) = Inr windows"
    "sample_rows g windows p = Inr sample"
    "clean = expand_dims (map (\<lambda>i. windows ! i) sample)"
    "corrupted = expand_dims (fill_placeholder dt (placeholder_value p)
                   (apply (map (\<lambda>i. windows ! i) sample) p))"
  using assms by (auto simp: process_series_def Let_def split: sum.splits)

text \<open>
  \<open>process_series\<close> returns whenever the windowing utility does and the batch size is
  a non-negative signed 64-bit integer.
\<close>

lemma process_series_returns:
  assumes "window (finite_mask series) (len_input p) = Inr windows"
    and "0 \<le> batch_size p" and "batch_size p < 2 ^ 63"
  shows "\<exists>clean corrupted. process_series window apply dt g series p = Inr (clean, corrupted)"
proof -
  from sample_rows_returns [OF assms(2,3)] obtain sample
    where "sample_rows g windows p = Inr sample" by blast
  then show ?thesis using assms(1) by (simp add: process_series_def Let_def)
qed

lemma expand_dims_inj: "expand_dims rows = expand_dims rows' \<Longrightarrow> rows = rows'"
proof -
  have "inj (\<lambda>x::'a. [x])" by (simp add: inj_def)
  then have "inj (map (map (\<lambda>x::'a. [x])))" by (intro inj_mapI)
  then show "expand_dims rows = expand_dims rows' \<Longrightarrow> rows = rows'"
    by (simp add: expand_dims_def inj_def)
qed

lemma concat_expand_dims: "concat (concat (expand_dims rows)) = concat rows"
  by (induction rows) (simp_all add: expand_dims_def concat_map_singleton)

lemma example_batch:
  "process_series RNN_univariate_processing nan_corruption Float64 zero_rng
     [Num 1, Num 2, Num 3, NaN] example_params
   = Inr ([[[Num 1], [Num 2]], [[Num 2], [Num 3]]], [[[Num 0], [Num 2]], [[Num 0], [Num 3]]])"
  by (simp add: process_series_def finite_mask_def RNN_univariate_processing_def
      example_params_def sample_rows_def random_choice_def zero_rng_def remove_nth_def
      nan_corruption_def fill_placeholder_def expand_dims_def eval_nat_numeral)

text \<open>
  The model of the draw leaves no outcome out: every sequence of pairwise distinct
  valid indices is the result of some random source.
\<close>

lemma set_remove_nth_distinct:
  assumes "distinct xs" "i < length xs"
  shows "set (remove_nth i xs) = set xs - {xs ! i}"
proof -
  have xs: "xs = take i xs @ xs ! i # drop (Suc i) xs"
    using assms(2) by (simp add: id_take_nth_drop)
  have "set xs = insert (xs ! i) (set (remove_nth i xs))"
    by (subst xs) (auto simp: remove_nth_def)
  moreover have "xs ! i \<notin> set (remove_nth i xs)"
    using distinct_remove_nth(2) [OF assms] .
  ultimately show ?thesis by auto
qed

lemma draw_complete:
  "distinct pool \<Longrightarrow> distinct s \<Longrightarrow> set s \<subseteq> set pool \<Longrightarrow> \<exists>g. draw g (length s) pool = s"
proof (induction s arbitrary: pool)
  case Nil
  show ?case by simp
next
  case (Cons x s)
  from Cons.prems(3) have "x \<in> set pool" by simp
  then obtain i where i: "i < length pool" and x: "pool ! i = x"
    by (auto simp: in_set_conv_nth)
  have ne: "pool \<noteq> []" using i by auto
  have d: "distinct (remove_nth i pool)" using distinct_remove_nth(1) [OF Cons.prems(1) i] .
  have "set s \<subseteq> set pool - {x}" using Cons.prems(2,3) by auto
  then have sub: "set s \<subseteq> set (remove_nth i pool)"
    using set_remove_nth_distinct [OF Cons.prems(1) i] x by simp
  from Cons.prems(2) have "distinct s" by simp
  from Cons.IH [OF d this sub] obtain g' where g': "draw g' (length s) (remove_nth i pool) = s"
    by blast
  let ?g = "\<lambda>j. case j of 0 \<Rightarrow> i | Suc j' \<Rightarrow> g' j'"
  have "draw ?g (length (x # s)) pool = x # s"
    using ne i x g' by (simp add: Let_def)
  then show ?case by blast
qed

lemma random_choice_complete:
  assumes "distinct s" and "\<forall>i\<in>set s. int i < n" and "int (length s) = k" and "0 \<le> n"
  shows "\<exists>g. random_choice g n k = Inr s"
proof -
  have sub: "set s \<subseteq> set [0..<nat n]" using assms(2) by auto
  from draw_complete [OF _ assms(1) sub] obtain g where g: "draw g (length s) [0..<nat n] = s"
    by auto
  have "card (set s) \<le> card (set [0..<nat n])" using sub by (intro card_mono) simp_all
  then have "length s \<le> nat n" using assms(1) by (simp add: distinct_card)
  then have "k \<le> n" "0 \<le> k" using assms(3,4) by linarith+
  then have "random_choice g n k = Inr s" using g assms(3) by (auto simp: random_choice_def)
  then show ?thesis by blast
qed

subsection \<open>The finite mask (C2)\<close>

lemma finite_mask_all_finite: "\<forall>x\<in>set (finite_mask series). isfinite x"
  by (simp add: finite_mask_def)

lemma finite_mask_trailing:
  assumes "\<forall>x\<in>set kept. isfinite x" and "\<forall>x\<in>set edge. \<not> isfinite x"
  shows "finite_mask (kept @ edge) = kept"
proof -
  have "filter isfinite kept = kept" using assms(1) by (induction kept) auto
  moreover have "filter isfinite edge = []" using assms(2) by (induction edge) auto
  ultimately show ?thesis by (simp add: finite_mask_def)
qed

lemma process_series_finite_mask:
  "process_series window apply dt g (finite_mask series) p = process_series window apply dt g series p"
  by (simp add: process_series_def finite_mask_def)

text \<open>
  Claim C2 says that only the trailing edge is trimmed, so that a non-finite entry in
  front of a finite one stays where it is. The mask of line 28 removes every non-finite
  entry instead. On the series \<open>1, NaN, 2\<close> the NaN at index 1, which precedes the
  finite entry at index 2, is removed, the entry 2 moves to index 1, and the windowing
  utility receives \<open>1, 2\<close>.
\<close>

theorem interior_non_finite_removed:
  "\<not> isfinite ([Num 1, NaN, Num 2] ! 1) \<and> isfinite ([Num 1, NaN, Num 2] ! 2)
   \<and> finite_mask [Num 1, NaN, Num 2] = [Num 1, Num 2]
   \<and> finite_mask [Num 1, NaN, Num 2] ! 1 \<noteq> [Num 1, NaN, Num 2] ! 1
   \<and> process_series RNN_univariate_processing no_corruption Float64 zero_rng [Num 1, NaN, Num 2]
        example_params = Inr ([[[Num 1], [Num 2]]], [[[Num 1], [Num 2]]])"
  by (simp add: process_series_def finite_mask_def RNN_univariate_processing_def
      example_params_def sample_rows_def random_choice_def zero_rng_def remove_nth_def
      no_corruption_def fill_placeholder_def expand_dims_def)

lemma process_series_window_argument:
  assumes "window' (filter isfinite series) (len_input p)
             = window (filter isfinite series) (len_input p)"
  shows "process_series window' apply dt g series p = process_series window apply dt g series p"
  using assms by (simp add: process_series_def finite_mask_def)

text \<open>
  Claim C2, amended: batch preparation windows the finite entries of the series, in
  their original order, and nothing else. The windowing utility is called on the
  series with every non-finite entry removed, wherever it is: the result of
  \<open>process_series\<close> depends on the utility at that argument only, an exception of the
  utility there is the result, and the rows of the clean batch are rows of what the
  utility returned there. When all non-finite entries are at the trailing edge, as the
  comment on line 28 expects, exactly that edge is removed and every finite entry keeps
  its original position.
\<close>

theorem process_series_keeps_finite_entries:
  "(\<forall>window'. window' (filter isfinite series) (len_input p)
                  = window (filter isfinite series) (len_input p) \<longrightarrow>
        process_series window' apply dt g series p = process_series window apply dt g series p)
   \<and> (\<forall>e. window (filter isfinite series) (len_input p) = Inl e \<longrightarrow>
        process_series window apply dt g series p = Inl e)
   \<and> (\<forall>clean corrupted. process_series window apply dt g series p = Inr (clean, corrupted) \<longrightarrow>
        (\<exists>windows sample. window (filter isfinite series) (len_input p) = Inr windows
           \<and> sample_rows g windows p = Inr sample
           \<and> clean = expand_dims (map (\<lambda>i. windows ! i) sample)))
   \<and> process_series window apply dt g series p
       = process_series window apply dt g (finite_mask series) p
   \<and> (\<forall>x\<in>set (finite_mask series). isfinite x)
   \<and> filter isfinite (finite_mask series) = filter isfinite series
   \<and> ((\<forall>x\<in>set kept. isfinite x) \<and> (\<forall>x\<in>set edge. \<not> isfinite x) \<longrightarrow>
        finite_mask (kept @ edge) = kept
        \<and> (\<forall>i<length kept. finite_mask (kept @ edge) ! i = (kept @ edge) ! i)
        \<and> process_series window apply dt g (kept @ edge) p
            = process_series window apply dt g kept p)"
proof (intro conjI allI impI)
  fix window'
  assume "window' (filter isfinite series) (len_input p)
            = window (filter isfinite series) (len_input p)"
  then show "process_series window' apply dt g series p
           = process_series window apply dt g series p"
    by (rule process_series_window_argument)
next
  fix e assume "window (filter isfinite series) (len_input p) = Inl e"
  then show "process_series window apply dt g series p = Inl e"
    by (simp add: process_series_def finite_mask_def)
next
  fix clean corrupted
  assume "process_series window apply dt g series p = Inr (clean, corrupted)"
  then obtain windows sample where
    "window (finite_mask series) (len_input p) = Inr windows"
    "sample_rows g windows p = Inr sample"
    "clean = expand_dims (map (\<lambda>i. windows ! i) sample)"
    by (rule process_series_Inr)
  then show "\<exists>windows sample. window (filter isfinite series) (len_input p) = Inr windows
           \<and> sample_rows g windows p = Inr sample
           \<and> clean = expand_dims (map (\<lambda>i. windows ! i) sample)"
    unfolding finite_mask_def by blast
next
  show "process_series window apply dt g series p
      = process_series window apply dt g (finite_mask series) p"
    by (simp add: process_series_finite_mask)
  show "\<forall>x\<in>set (finite_mask series). isfinite x" by (rule finite_mask_all_finite)
  show "filter isfinite (finite_mask series) = filter isfinite series"
    by (simp add: finite_mask_def)
next
  assume a: "(\<forall>x\<in>set kept. isfinite x) \<and> (\<forall>x\<in>set edge. \<not> isfinite x)"
  then show k: "finite_mask (kept @ edge) = kept" by (simp add: finite_mask_trailing)
  show "finite_mask (kept @ edge) ! i = (kept @ edge) ! i" if "i < length kept" for i
    unfolding k using that by (simp add: nth_append)
  have "finite_mask kept = kept" using finite_mask_trailing [of kept "[]"] a by simp
  then have "finite_mask (kept @ edge) = finite_mask kept" using k by simp
  then show "process_series window apply dt g (kept @ edge) p
           = process_series window apply dt g kept p"
    by (simp add: process_series_def)
qed

theorem process_series_keeps_finite_entries_witness:
  "list_all isfinite [Num 1, Num 2] \<and> list_all (\<lambda>x. \<not> isfinite x) [NaN, PosInf]
   \<and> finite_mask ([Num 1, Num 2] @ [NaN, PosInf]) = [Num 1, Num 2]
   \<and> finite_mask ([Num 1, Num 2] @ [NaN, PosInf]) ! 1 = Num 2
   \<and> process_series single_window no_corruption Float64 zero_rng
         ([Num 1, Num 2] @ [NaN, PosInf]) example_params
       = Inr ([[[Num 1], [Num 2]]], [[[Num 1], [Num 2]]])
   \<and> process_series single_window no_corruption Float64 zero_rng
         ([Num 1, Num 2] @ [NaN, PosInf]) example_params
       = process_series single_window no_corruption Float64 zero_rng [Num 1, Num 2]
           example_params"
proof -
  have r: "process_series single_window no_corruption Float64 zero_rng
         ([Num 1, Num 2] @ [NaN, PosInf]) example_params
       = Inr ([[[Num 1], [Num 2]]], [[[Num 1], [Num 2]]])"
    by (simp add: process_series_def finite_mask_def single_window_def example_params_def
        sample_rows_def random_choice_def zero_rng_def remove_nth_def no_corruption_def
        fill_placeholder_def expand_dims_def)
  have h: "(\<forall>x\<in>set [Num 1, Num 2]. isfinite x) \<and> (\<forall>x\<in>set [NaN, PosInf]. \<not> isfinite x)"
    by simp
  from process_series_keeps_finite_entries
         [of "[Num 1, Num 2, NaN, PosInf]" example_params single_window no_corruption Float64
             zero_rng "[Num 1, Num 2]" "[NaN, PosInf]"] h
  have "finite_mask ([Num 1, Num 2] @ [NaN, PosInf]) = [Num 1, Num 2]
        \<and> (\<forall>i<length [Num 1, Num 2 :: npfloat].
               finite_mask ([Num 1, Num 2] @ [NaN, PosInf]) ! i = ([Num 1, Num 2] @ [NaN, PosInf]) ! i)
        \<and> process_series single_window no_corruption Float64 zero_rng
              ([Num 1, Num 2] @ [NaN, PosInf]) example_params
            = process_series single_window no_corruption Float64 zero_rng [Num 1, Num 2]
                example_params"
    by blast
  with r show ?thesis by simp
qed

subsection \<open>Placeholder substitution (C3)\<close>

lemma cast_isnan: "isnan (cast dt v) \<longleftrightarrow> isnan v"
  by (cases v) simp_all

lemma cast_isfinite:
  "isfinite (cast dt (Num x)) \<longleftrightarrow> - overflow_at dt < x \<and> x < overflow_at dt"
  by auto

lemma fill_placeholder_no_nan:
  "\<not> isnan v \<Longrightarrow> \<forall>x\<in>set (concat (fill_placeholder dt v rows)). \<not> isnan x"
  by (auto simp: fill_placeholder_def cast_isnan)

lemma finite_or_nan: "isfinite x \<or> isnan x \<or> x = PosInf \<or> x = NegInf"
  by (cases x) simp_all

lemma fill_placeholder_finite:
  assumes "isfinite (cast dt v)" and "\<forall>x\<in>set (concat rows). x \<noteq> PosInf \<and> x \<noteq> NegInf"
  shows "\<forall>x\<in>set (concat (fill_placeholder dt v rows)). isfinite x"
proof
  fix x assume "x \<in> set (concat (fill_placeholder dt v rows))"
  then have "\<exists>y\<in>set (concat rows). x = (if isnan y then cast dt v else y)"
    by (auto simp: fill_placeholder_def)
  then obtain y where y: "y \<in> set (concat rows)" and x: "x = (if isnan y then cast dt v else y)"
    by blast
  from y assms(2) have "isfinite y \<or> isnan y" using finite_or_nan [of y] by blast
  with x assms(1) show "isfinite x" by auto
qed

text \<open>
  Claim C3 says that with a finite placeholder no infinity remains in the corrupted
  batch, whatever the corruption policy produced. Line 34 tests \<open>np.isnan\<close>, so an
  infinity written by the corruption policy is not replaced: with a policy that
  overflows every entry, a finite series and a finite placeholder, the corrupted batch
  holds only \<open>+inf\<close>. And the placeholder is cast to the dtype of the batch: the finite
  placeholder \<open>10^39\<close> is beyond the range of 32-bit floats and is written as \<open>+inf\<close>
  into a batch of that dtype.
\<close>

theorem infinity_survives_substitution:
  "process_series RNN_univariate_processing overflow_corruption Float64 zero_rng
     [Num 1, Num 2, Num 3] example_params
   = Inr ([[[Num 1], [Num 2]], [[Num 2], [Num 3]]], [[[PosInf], [PosInf]], [[PosInf], [PosInf]]])
   \<and> isfinite ([Num 1, Num 2, Num 3] ! 0)
   \<and> isfinite (placeholder_value example_params)
   \<and> \<not> isfinite PosInf
   \<and> process_series RNN_univariate_processing nan_corruption Float32 zero_rng
     [Num 1, Num 2, Num 3] huge_placeholder_params
   = Inr ([[[Num 1], [Num 2]], [[Num 2], [Num 3]]], [[[PosInf], [Num 2]], [[PosInf], [Num 3]]])
   \<and> isfinite (placeholder_value huge_placeholder_params)"
  by (simp add: process_series_def finite_mask_def RNN_univariate_processing_def
        example_params_def huge_placeholder_params_def sample_rows_def random_choice_def
        zero_rng_def remove_nth_def overflow_corruption_def nan_corruption_def
        fill_placeholder_def expand_dims_def eval_nat_numeral)

text \<open>
  Claim C3, amended: for every input series and a finite placeholder value, no entry of
  the corrupted batch returned by \<open>process_series\<close> is NaN; and every entry is finite
  when the placeholder is still finite in the dtype of the batch, that is of a
  magnitude below the overflow threshold of that dtype, and the corruption policy
  returned no infinity for the sampled rows (the rows of the clean batch).
\<close>

theorem corrupted_batch_nan_free:
  assumes "process_series window apply dt g series p = Inr (clean, corrupted)"
    and "isfinite (placeholder_value p)"
  shows "(\<forall>x\<in>set (concat (concat corrupted)). \<not> isnan x)
       \<and> (\<forall>rows. clean = expand_dims rows
             \<and> isfinite (cast dt (placeholder_value p))
             \<and> (\<forall>x\<in>set (concat (apply rows p)). x \<noteq> PosInf \<and> x \<noteq> NegInf) \<longrightarrow>
            (\<forall>x\<in>set (concat (concat corrupted)). isfinite x))
       \<and> (\<forall>v. placeholder_value p = Num v \<longrightarrow>
            (isfinite (cast dt (placeholder_value p))
               \<longleftrightarrow> - overflow_at dt < v \<and> v < overflow_at dt))"
proof -
  from assms(1) obtain windows sample where
    cl: "clean = expand_dims (map (\<lambda>i. windows ! i) sample)" and
    c: "corrupted = expand_dims (fill_placeholder dt (placeholder_value p)
                   (apply (map (\<lambda>i. windows ! i) sample) p))"
    by (rule process_series_Inr)
  have n: "\<not> isnan (placeholder_value p)" using assms(2) by (cases "placeholder_value p") simp_all
  have 1: "\<forall>x\<in>set (concat (concat corrupted)). \<not> isnan x"
    unfolding c concat_expand_dims by (rule fill_placeholder_no_nan [OF n])
  have 2: "\<forall>x\<in>set (concat (concat corrupted)). isfinite x"
    if r: "clean = expand_dims rows"
      and v: "isfinite (cast dt (placeholder_value p))"
      and f: "\<forall>x\<in>set (concat (apply rows p)). x \<noteq> PosInf \<and> x \<noteq> NegInf" for rows
  proof -
    have "rows = map (\<lambda>i. windows ! i) sample" using r cl by (simp add: expand_dims_inj)
    with f show ?thesis
      unfolding c concat_expand_dims by (simp add: fill_placeholder_finite [OF v])
  qed
  have 3: "isfinite (cast dt (placeholder_value p)) \<longleftrightarrow> - overflow_at dt < v \<and> v < overflow_at dt"
    if "placeholder_value p = Num v" for v
    unfolding that by (rule cast_isfinite)
  from 1 2 3 show ?thesis by blast
qed

theorem corrupted_batch_nan_free_witness:
  "process_series RNN_univariate_processing nan_corruption Float64 zero_rng
     [Num 1, Num 2, Num 3, NaN] example_params
   = Inr (expand_dims [[Num 1, Num 2], [Num 2, Num 3]], [[[Num 0], [Num 2]], [[Num 0], [Num 3]]])
   \<and> isfinite (placeholder_value example_params)
   \<and> isfinite (cast Float64 (placeholder_value example_params))
   \<and> nan_corruption [[Num 1, Num 2], [Num 2, Num 3]] example_params
       = [[NaN, Num 2], [NaN, Num 3]]
   \<and> list_all isfinite (concat (concat [[[Num 0], [Num 2]], [[Num 0], [Num 3]]]))"
proof -
  have r: "process_series RNN_univariate_processing nan_corruption Float64 zero_rng
     [Num 1, Num 2, Num 3, NaN] example_params
   = Inr (expand_dims [[Num 1, Num 2], [Num 2, Num 3]], [[[Num 0], [Num 2]], [[Num 0], [Num 3]]])"
    using example_batch by (simp add: expand_dims_def)
  have f: "isfinite (placeholder_value example_params)" by (simp add: example_params_def)
  have k: "isfinite (cast Float64 (placeholder_value example_params))"
    by (simp add: example_params_def)
  have e: "nan_corruption [[Num 1, Num 2], [Num 2, Num 3]] example_params
       = [[NaN, Num 2], [NaN, Num 3]]"
    by (simp add: nan_corruption_def)
  have i: "\<forall>x\<in>set (concat (nan_corruption [[Num 1, Num 2], [Num 2, Num 3]] example_params)).
         x \<noteq> PosInf \<and> x \<noteq> NegInf"
    unfolding e by simp
  from corrupted_batch_nan_free [OF r f] k i
  have "\<forall>x\<in>set (concat (concat [[[Num 0], [Num 2]], [[Num 0], [Num 3]]])). isfinite x"
    by blast
  then have "list_all isfinite (concat (concat [[[Num 0], [Num 2]], [[Num 0], [Num 3]]]))"
    unfolding list_all_iff .
  with r f k e show ?thesis by blast
qed

subsection \<open>Shapes of the returned batches (C4)\<close>

lemma has_shape_expand_dims:
  "\<forall>r\<in>set rows. length r = m \<Longrightarrow> has_shape (expand_dims rows) (length rows) m 1"
  by (auto simp: has_shape_def expand_dims_def)

lemma fill_placeholder_lengths: "map length (fill_placeholder dt v rows) = map length rows"
  by (simp add: fill_placeholder_def)

lemma same_row_lengths:
  assumes "map length xs = map length ys"
  shows "length xs = length ys" and "(\<forall>r\<in>set ys. length r = m) \<Longrightarrow> (\<forall>r\<in>set xs. length r = m)"
proof -
  show "length xs = length ys" using assms by (rule map_eq_imp_length_eq)
  assume "\<forall>r\<in>set ys. length r = m"
  then have "\<forall>n\<in>set (map length ys). n = m" by simp
  then have "\<forall>n\<in>set (map length xs). n = m" using assms by simp
  then show "\<forall>r\<in>set xs. length r = m" by simp
qed

lemma RNN_univariate_processing_widths:
  "RNN_univariate_processing series n = Inr windows \<Longrightarrow> \<forall>r\<in>set windows. int (length r) = n"
  by (auto simp: RNN_univariate_processing_def split: if_splits)

lemma nan_corruption_lengths: "map length (nan_corruption rows p) = map length rows"
  by (auto simp: nan_corruption_def split: list.splits)

text \<open>
  Claim C4: the clean and the corrupted batch returned by \<open>process_series\<close> have the
  same number of rows, and both have the shape (n, window length, 1). The two
  collaborators are taken at their interface: the windowing utility returns rows of the
  configured length, and the corruption policy returns an array of the shape it was
  given.
\<close>

theorem process_series_shapes:
  assumes "process_series window apply dt g series p = Inr (clean, corrupted)"
    and "\<forall>windows. window (finite_mask series) (len_input p) = Inr windows \<longrightarrow>
           (\<forall>r\<in>set windows. int (length r) = len_input p)"
    and "\<forall>rows. map length (apply rows p) = map length rows"
  shows "length clean = length corrupted
       \<and> has_shape clean (length clean) (nat (len_input p)) 1
       \<and> has_shape corrupted (length clean) (nat (len_input p)) 1"
proof -
  from assms(1) obtain windows sample where
    w: "window (finite_mask series) (len_input p) = Inr windows" and
    s: "sample_rows g windows p = Inr sample" and
    cl: "clean = expand_dims (map (\<lambda>i. windows ! i) sample)" and
    c: "corrupted = expand_dims (fill_placeholder dt (placeholder_value p)
                   (apply (map (\<lambda>i. windows ! i) sample) p))"
    by (rule process_series_Inr)
  let ?rows = "map (\<lambda>i. windows ! i) sample"
  let ?det = "fill_placeholder dt (placeholder_value p) (apply ?rows p)"
  have wl: "\<forall>r\<in>set windows. length r = nat (len_input p)"
    using assms(2) w by fastforce
  have "\<forall>i\<in>set sample. i < length windows" using s by (rule sample_rows_Inr)
  then have rl: "\<forall>r\<in>set ?rows. length r = nat (len_input p)" using wl by simp
  have eq: "map length ?det = map length ?rows"
    using assms(3) by (simp add: fill_placeholder_lengths)
  have dl: "\<forall>r\<in>set ?det. length r = nat (len_input p)"
    using same_row_lengths(2) [OF eq rl] .
  have n: "length ?det = length ?rows" using same_row_lengths(1) [OF eq] .
  have a: "has_shape clean (length ?rows) (nat (len_input p)) 1"
    unfolding cl by (rule has_shape_expand_dims [OF rl])
  have b: "has_shape corrupted (length ?det) (nat (len_input p)) 1"
    unfolding c by (rule has_shape_expand_dims [OF dl])
  have lc: "length clean = length ?rows" by (simp add: cl expand_dims_def)
  have ld: "length corrupted = length ?det" by (simp add: c expand_dims_def)
  from a b n lc ld show ?thesis by simp
qed

theorem process_series_shapes_witness:
  "process_series RNN_univariate_processing nan_corruption Float64 zero_rng
     [Num 1, Num 2, Num 3, NaN] example_params
   = Inr ([[[Num 1], [Num 2]], [[Num 2], [Num 3]]], [[[Num 0], [Num 2]], [[Num 0], [Num 3]]])
   \<and> has_shape [[[Num 1], [Num 2]], [[Num 2], [Num 3]]] 2 2 1
   \<and> has_shape [[[Num 0], [Num 2]], [[Num 0], [Num 3]]] 2 2 1"
proof -
  note r = example_batch
  have w: "\<forall>windows. RNN_univariate_processing (finite_mask [Num 1, Num 2, Num 3, NaN])
             (len_input example_params) = Inr windows \<longrightarrow>
           (\<forall>r\<in>set windows. int (length r) = len_input example_params)"
    using RNN_univariate_processing_widths by blast
  have a: "\<forall>rows. map length (nan_corruption rows example_params) = map length rows"
    by (simp add: nan_corruption_lengths)
  have l: "nat (len_input example_params) = 2" by (simp add: example_params_def)
  from process_series_shapes [OF r w a] r show ?thesis
    by (simp add: l eval_nat_numeral)
qed

subsection \<open>Size and indices of the subsample (C5)\<close>

text \<open>
  Claim C5: the draw of line 30 succeeds for every batch size that is a non-negative
  signed 64-bit integer and is refused for a batch size from \<open>2^63\<close> and below
  \<open>2^64\<close>; whenever it succeeds it selects the minimum of the number of windowed rows
  and the batch size, never more rows than exist, and the selected indices are pairwise
  distinct and valid; the clean batch returned by \<open>process_series\<close> has that many rows.
\<close>

theorem subsample_size_and_indices:
  "(0 \<le> batch_size p \<and> batch_size p < 2 ^ 63 \<longrightarrow>
      (\<exists>sample. sample_rows g windows p = Inr sample))
   \<and> (2 ^ 63 \<le> batch_size p \<and> batch_size p < 2 ^ 64 \<longrightarrow>
      sample_rows g windows p = Inl TypeError)
   \<and> (\<forall>sample. sample_rows g windows p = Inr sample \<longrightarrow>
        length sample = min (length windows) (nat (batch_size p))
        \<and> length sample \<le> length windows
        \<and> distinct sample
        \<and> (\<forall>i\<in>set sample. i < length windows))
   \<and> (\<forall>clean corrupted ws.
        process_series window apply dt g series p = Inr (clean, corrupted)
        \<and> window (finite_mask series) (len_input p) = Inr ws \<longrightarrow>
        length clean = min (length ws) (nat (batch_size p)))"
proof (intro conjI allI impI)
  assume "0 \<le> batch_size p \<and> batch_size p < 2 ^ 63"
  then show "\<exists>sample. sample_rows g windows p = Inr sample"
    by (simp add: sample_rows_returns)
next
  assume "2 ^ 63 \<le> batch_size p \<and> batch_size p < 2 ^ 64"
  then show "sample_rows g windows p = Inl TypeError"
    by (simp add: sample_rows_TypeError)
next
  fix sample assume s: "sample_rows g windows p = Inr sample"
  show l: "length sample = min (length windows) (nat (batch_size p))"
    using s by (rule sample_rows_Inr)
  then show "length sample \<le> length windows" by simp
  show "distinct sample" using s by (rule sample_rows_Inr)
next
  fix sample assume s: "sample_rows g windows p = Inr sample"
  show "\<forall>i\<in>set sample. i < length windows" using s by (rule sample_rows_Inr)
next
  fix clean corrupted ws
  assume a: "process_series window apply dt g series p = Inr (clean, corrupted)
        \<and> window (finite_mask series) (len_input p) = Inr ws"
  then obtain windows sample where
    w: "window (finite_mask series) (len_input p) = Inr windows" and
    s: "sample_rows g windows p = Inr sample" and
    cl: "clean = expand_dims (map (\<lambda>i. windows ! i) sample)"
    using process_series_Inr by blast
  from a w have "ws = windows" by simp
  moreover have "length clean = length sample" by (simp add: cl expand_dims_def)
  ultimately show "length clean = min (length ws) (nat (batch_size p))"
    using sample_rows_Inr(1) [OF s] by simp
qed

theorem subsample_size_and_indices_witness:
  "0 \<le> batch_size example_params \<and> batch_size example_params < 2 ^ 63
   \<and> sample_rows zero_rng [[Num 1, Num 2], [Num 2, Num 3], [Num 3, Num 4]] example_params
       = Inr [0, 1]
   \<and> length [0, 1 :: nat] = min (length [[Num 1, Num 2], [Num 2, Num 3], [Num 3, Num 4]])
                               (nat (batch_size example_params))
   \<and> distinct [0, 1 :: nat]"
proof -
  have s: "sample_rows zero_rng [[Num 1, Num 2], [Num 2, Num 3], [Num 3, Num 4]] example_params
       = Inr [0, 1]"
    by code_simp
  have b: "0 \<le> batch_size example_params" "batch_size example_params < 2 ^ 63"
    by (simp_all add: example_params_def)
  have "\<forall>sample. sample_rows zero_rng [[Num 1, Num 2], [Num 2, Num 3], [Num 3, Num 4]]
            example_params = Inr sample \<longrightarrow>
        length sample = min (length [[Num 1, Num 2], [Num 2, Num 3], [Num 3, Num 4]])
                            (nat (batch_size example_params))
        \<and> length sample \<le> length [[Num 1, Num 2], [Num 2, Num 3], [Num 3, Num 4]]
        \<and> distinct sample
        \<and> (\<forall>i\<in>set sample. i < length [[Num 1, Num 2], [Num 2, Num 3], [Num 3, Num 4]])"
    using subsample_size_and_indices
         [of example_params zero_rng "[[Num 1, Num 2], [Num 2, Num 3], [Num 3, Num 4]]"
             RNN_univariate_processing no_corruption Float64 "[]"]
    by (rule conjunct1 [OF conjunct2 [OF conjunct2]])
  with s have "length [0, 1 :: nat] = min (length [[Num 1, Num 2], [Num 2, Num 3], [Num 3, Num 4]])
                               (nat (batch_size example_params))
   \<and> distinct [0, 1 :: nat]"
    by blast
  with s b show ?thesis by blast
qed

section \<open>Properties of the losses\<close>

subsection \<open>The generator loss of the partial-adversarial loop (C1)\<close>

text \<open>
  The generator loss that \<open>train_step\<close> of \<open>train_partial_GAN\<close> returns is a convex
  combination, but its first term compares the clean batch with the corrupted batch,
  the input of the generator, and not with the generator's output.
\<close>

lemma partial_GAN_generator_loss_formula:
  "fst (partial_GAN_train_step ce generator discriminator batch deteriorated real_example w)
   = w * MAE batch deteriorated
     + (1 - w) * ce (ones_like (discriminator (generator deteriorated)))
                    (discriminator (generator deteriorated))"
  by (simp add: partial_GAN_train_step_def partial_GAN_generator_loss_def Let_def mult.commute)

text \<open>
  Claim C1 takes the reconstruction loss between the clean batch and the generator's
  reconstruction of the corrupted batch. With weight 1 and a generator that reconstructs
  the clean batch exactly, that loss is 0, and so is the claimed weighted sum; the
  training step returns 1/2, the mean absolute error between the clean and the
  corrupted batch, for every cross-entropy and every discriminator.
\<close>

theorem partial_GAN_reconstruction_term_ignores_generator:
  "fst (partial_GAN_train_step ce perfect_generator discriminator
          clean_example corrupted_example real_example 1) = 1 / 2
   \<and> MAE clean_example (perfect_generator corrupted_example) = 0
   \<and> 1 * MAE clean_example (perfect_generator corrupted_example)
       + (1 - 1) * ce (ones_like (discriminator (perfect_generator corrupted_example)))
                      (discriminator (perfect_generator corrupted_example)) = 0"
  by (simp add: partial_GAN_train_step_def partial_GAN_generator_loss_def Let_def MAE_def
      clean_example_def corrupted_example_def perfect_generator_def)

subsection \<open>Soft labels of the GAN loop (C6)\<close>

lemma uint32_to_float_range: "0 \<le> uint32_to_float x \<and> uint32_to_float x < 1"
proof -
  have "x AND 0x7FFFFF \<le> 0x7FFFFF" by (rule word_and_le1)
  then have "unat (x AND 0x7FFFFF) \<le> unat (0x7FFFFF :: 32 word)" by (simp add: word_le_nat_alt)
  then have "unat (x AND 0x7FFFFF) < 2 ^ 23" by simp
  then have "real (unat (x AND 0x7FFFFF)) < 2 ^ 23"
    by (metis of_nat_less_iff of_nat_numeral of_nat_power)
  then have "real (unat (x AND 0x7FFFFF)) / 2 ^ 23 < 1"
    by (simp only: divide_less_eq_1_pos zero_less_power zero_less_numeral)
  moreover have "0 \<le> real (unat (x AND 0x7FFFFF)) / 2 ^ 23"
    by (rule divide_nonneg_nonneg) (rule of_nat_0_le_iff, rule zero_le_power, rule zero_le_numeral)
  ultimately show ?thesis unfolding uint32_to_float_def by (rule conjI [rotated])
qed

lemma random_uniform_range:
  assumes "minval \<le> maxval"
  shows "\<forall>x\<in>set (data (fst (random_uniform g shp minval maxval))). minval \<le> x \<and> x \<le> maxval"
proof
  fix x assume "x \<in> set (data (fst (random_uniform g shp minval maxval)))"
  then obtain i where x: "x = uint32_to_float (g i) * (maxval - minval) + minval"
    by (auto simp: random_uniform_def Let_def)
  let ?u = "uint32_to_float (g i)"
  have u: "0 \<le> ?u" "?u \<le> 1" using uint32_to_float_range [of "g i"] by simp_all
  have d: "0 \<le> maxval - minval" using assms by simp
  have "0 \<le> ?u * (maxval - minval)" using u(1) d by simp
  moreover have "?u * (maxval - minval) \<le> 1 * (maxval - minval)"
    using u(2) d by (rule mult_right_mono)
  ultimately show "minval \<le> x \<and> x \<le> maxval" unfolding x by simp
qed

lemma random_uniform_shape:
  "shape (fst (random_uniform g shp minval maxval)) = shp"
  "length (data (fst (random_uniform g shp minval maxval))) = prod_list shp"
  by (simp_all add: random_uniform_def Let_def)

lemma half_rng_draw: "uint32_to_float (half_rng i) = 1 / 2"
  by (simp add: uint32_to_float_def half_rng_def)

lemma example_targets:
  "data (fst (random_uniform half_rng (shape example_scores) 0 0.2)) = [0.1, 0.1]"
  "data (fst (random_uniform (snd (random_uniform half_rng (shape example_scores) 0 0.2))
                    (shape example_scores) 0.8 1)) = [0.9, 0.9]"
  by (simp_all add: random_uniform_def Let_def example_scores_def half_rng_draw eval_nat_numeral)

text \<open>
  Claim C6: the discriminator loss of the GAN loop is the cross-entropy of the fake
  scores against targets drawn for them plus the cross-entropy of the real scores
  against targets drawn for them, and for every random source every target for a real
  score lies in [0.8, 1.0] and every target for a fake score in [0.0, 0.2].
\<close>

theorem GAN_soft_labels:
  "fst (GAN_discriminator_loss ce g reals fakes)
     = ce (fst (random_uniform g (shape fakes) 0 0.2)) fakes
       + ce (fst (random_uniform (snd (random_uniform g (shape fakes) 0 0.2))
                    (shape reals) 0.8 1)) reals
   \<and> (\<forall>x\<in>set (data (fst (random_uniform (snd (random_uniform g (shape fakes) 0 0.2))
                    (shape reals) 0.8 1))). 0.8 \<le> x \<and> x \<le> 1)
   \<and> (\<forall>x\<in>set (data (fst (random_uniform g (shape fakes) 0 0.2))). 0 \<le> x \<and> x \<le> 0.2)"
proof (intro conjI)
  show "fst (GAN_discriminator_loss ce g reals fakes)
     = ce (fst (random_uniform g (shape fakes) 0 0.2)) fakes
       + ce (fst (random_uniform (snd (random_uniform g (shape fakes) 0 0.2))
                    (shape reals) 0.8 1)) reals"
    by (simp add: GAN_discriminator_loss_def Let_def split_beta)
  show "\<forall>x\<in>set (data (fst (random_uniform (snd (random_uniform g (shape fakes) 0 0.2))
                    (shape reals) 0.8 1))). 0.8 \<le> x \<and> x \<le> 1"
    by (rule random_uniform_range) simp
  show "\<forall>x\<in>set (data (fst (random_uniform g (shape fakes) 0 0.2))). 0 \<le> x \<and> x \<le> 0.2"
    by (rule random_uniform_range) simp
qed

theorem GAN_soft_labels_witness:
  "data (fst (random_uniform half_rng (shape example_scores) 0 0.2)) = [0.1, 0.1]
   \<and> data (fst (random_uniform (snd (random_uniform half_rng (shape example_scores) 0 0.2))
                    (shape example_scores) 0.8 1)) = [0.9, 0.9]
   \<and> list_all (\<lambda>x. 0 \<le> x \<and> x \<le> 0.2) [0.1, 0.1 :: real]
   \<and> list_all (\<lambda>x. 0.8 \<le> x \<and> x \<le> 1) [0.9, 0.9 :: real]"
proof -
  note t = GAN_soft_labels [of ce_any half_rng example_scores example_scores for ce_any]
  have "list_all (\<lambda>x. 0 \<le> x \<and> x \<le> 0.2) [0.1, 0.1 :: real]"
    using t unfolding example_targets list_all_iff by blast
  moreover have "list_all (\<lambda>x. 0.8 \<le> x \<and> x \<le> 1) [0.9, 0.9 :: real]"
    using t unfolding example_targets list_all_iff by blast
  ultimately show ?thesis using example_targets by blast
qed

subsection \<open>Hard labels of the partial-adversarial loop (C7)\<close>

text \<open>
  Claim C7: the discriminator loss of the partial-adversarial loop is the cross-entropy
  of the fake scores against a target tensor of their shape whose every entry is 0,
  plus the cross-entropy of the real scores against a target tensor of their shape
  whose every entry is 1. The loss takes no random source.
\<close>

theorem partial_GAN_hard_labels:
  "partial_GAN_discriminator_loss ce reals fakes
     = ce (zeros_like fakes) fakes + ce (ones_like reals) reals
   \<and> shape (zeros_like fakes) = shape fakes
   \<and> data (zeros_like fakes) = replicate (length (data fakes)) 0
   \<and> shape (ones_like reals) = shape reals
   \<and> data (ones_like reals) = replicate (length (data reals)) 1"
  by (simp add: partial_GAN_discriminator_loss_def zeros_like_def ones_like_def
      map_replicate_const)

section \<open>Properties of the training loops\<close>

lemma reports_append: "reports (a @ b) = reports a @ reports b"
  by (induction a rule: reports.induct) simp_all

lemma gradient_steps_append: "gradient_steps (a @ b) = gradient_steps a @ gradient_steps b"
  by (induction a rule: gradient_steps.induct) simp_all

lemma saves_append: "saves (a @ b) = saves a @ saves b"
  by (induction a rule: saves.induct) simp_all

lemma iterations_completed:
  "iterations adv w n_train n_val epoch its = (evs, None) \<Longrightarrow>
     reports evs = map (Pair epoch) (filter (\<lambda>i. i mod 100 = 0) its)
     \<and> gradient_steps evs = map (Pair epoch) its
     \<and> saves evs = []"
proof (induction its arbitrary: evs)
  case Nil
  then show ?case by simp
next
  case (Cons i its)
  obtain evs' r where rest: "iterations adv w n_train n_val epoch its = (evs', r)"
    by (cases "iterations adv w n_train n_val epoch its")
  show ?case
  proof (cases "i mod 100 = 0")
    case True
    with Cons.prems rest have "r = None" and evs: "evs = GradientStep epoch i # ProgressReport epoch i # evs'"
      by (auto split: if_splits)
    with rest Cons.IH [of evs'] True show ?thesis by simp
  next
    case False
    with Cons.prems rest have "r = None" and evs: "evs = GradientStep epoch i # evs'"
      by (auto split: if_splits)
    with rest Cons.IH [of evs'] False show ?thesis by simp
  qed
qed

lemma epochs_completed:
  "epochs adv w n_train n_val es = (evs, None) \<Longrightarrow>
     reports evs = concat (map (\<lambda>e. map (Pair e) (filter (\<lambda>i. i mod 100 = 0) [0..<n_train])) es)
     \<and> gradient_steps evs = concat (map (\<lambda>e. map (Pair e) [0..<n_train]) es)
     \<and> saves evs = []"
proof (induction es arbitrary: evs)
  case Nil
  then show ?case by simp
next
  case (Cons e es)
  obtain a ra where a: "iterations adv w n_train n_val e [0..<n_train] = (a, ra)"
    by (cases "iterations adv w n_train n_val e [0..<n_train]")
  obtain b rb where b: "epochs adv w n_train n_val es = (b, rb)"
    by (cases "epochs adv w n_train n_val es")
  from Cons.prems a b have ra: "ra = None" and rb: "rb = None" and evs: "evs = a @ b"
    by (auto split: option.splits)
  from iterations_completed [OF a [unfolded ra]] Cons.IH [OF b [unfolded rb]]
  show ?case by (simp add: evs reports_append gradient_steps_append saves_append)
qed

lemma training_session_completed:
  assumes "training_session adv w p = (evs, None)"
  obtains X_files V_files where
    "data_files w ''Training'' ''readme_training.md'' = Inr X_files"
    "data_files w ''Validation'' ''readme_validation.md'' = Inr V_files"
    "epochs adv w (length X_files) (length V_files) [0..<nat (n_epochs p)] = (evs, None)"
  using assms by (auto simp: training_session_def split: sum.splits)

lemma training_session_events:
  assumes "training_session adv w p = (evs, None)"
    and "data_files w ''Training'' ''readme_training.md'' = Inr X_files"
  shows "reports evs = expected_reports (nat (n_epochs p)) (length X_files)"
    and "gradient_steps evs = expected_steps (nat (n_epochs p)) (length X_files)"
    and "saves evs = []"
proof -
  from assms(1) obtain X V where
    x: "data_files w ''Training'' ''readme_training.md'' = Inr X" and
    v: "data_files w ''Validation'' ''readme_validation.md'' = Inr V" and
    e: "epochs adv w (length X) (length V) [0..<nat (n_epochs p)] = (evs, None)"
    by (rule training_session_completed)
  from x assms(2) have "X = X_files" by simp
  with epochs_completed [OF e]
  show "reports evs = expected_reports (nat (n_epochs p)) (length X_files)"
    and "gradient_steps evs = expected_steps (nat (n_epochs p)) (length X_files)"
    and "saves evs = []"
    by (simp_all add: expected_reports_def expected_steps_def)
qed

lemma save_events:
  "save w role path = (s, r) \<Longrightarrow> reports s = [] \<and> gradient_steps s = []"
  "save w role path = (s, None) \<Longrightarrow> saves s = [(role, path)]"
  by (auto simp: save_def split: if_splits)

lemma train_vanilla_seq2seq_completed:
  assumes "train_vanilla_seq2seq w p = (evs, None)"
  obtains t s where "training_session False w p = (t, None)"
    "save w Seq2seq (getcwd w @ ''/saved_models/'' @ model_name p @ ''.h5'') = (s, None)"
    "evs = t @ s"
  using assms by (auto simp: train_vanilla_seq2seq_def split: prod.splits option.splits)

lemma train_GAN_completed:
  assumes "train_GAN w p = (evs, None)"
  obtains t s s' where "training_session True w p = (t, None)"
    "save w Generator (getcwd w @ ''/saved_models/'' @ model_name p @ ''.h5'') = (s, None)"
    "if save_discriminator p
       then save w Discriminator
              (getcwd w @ ''/saved_models/'' @ model_name p @ ''_discriminator.h5'') = (s', None)
       else s' = []"
    "evs = t @ s @ s'"
  using assms
  by (auto simp: train_GAN_def split: prod.splits option.splits if_splits)

lemma train_partial_GAN_eq: "train_partial_GAN w p = train_GAN w p"
  by (simp add: train_partial_GAN_def train_GAN_def)

lemma example_runs:
  "train_vanilla_seq2seq example_world example_params =
     ([GradientStep 0 0, ProgressReport 0 0, GradientStep 0 1, GradientStep 0 2,
       Saved Seq2seq ''/home/saved_models/seq2seq.h5''], None)"
  "train_GAN example_world example_params =
     ([GradientStep 0 0, ProgressReport 0 0, GradientStep 0 1, GradientStep 0 2,
       Saved Generator ''/home/saved_models/seq2seq.h5'',
       Saved Discriminator ''/home/saved_models/seq2seq_discriminator.h5''], None)"
  by code_simp+



text \<open>
  In every run, completed or not, a progress report is only ever emitted at an iteration
  whose index is divisible by 100.
\<close>

lemma iterations_reports_at_100:
  "iterations adv w n_train n_val epoch its = (evs, r) \<Longrightarrow>
     \<forall>(e, i)\<in>set (reports evs). i mod 100 = 0"
proof (induction its arbitrary: evs r)
  case Nil
  then show ?case by simp
next
  case (Cons i its)
  obtain evs' r' where rest: "iterations adv w n_train n_val epoch its = (evs', r')"
    by (cases "iterations adv w n_train n_val epoch its")
  from Cons.IH [OF rest] have ih: "\<forall>(e, i)\<in>set (reports evs'). i mod 100 = 0" .
  from Cons.prems rest have
    "evs = [] \<or> evs = [GradientStep epoch i]
     \<or> (i mod 100 = 0 \<and> evs = GradientStep epoch i # ProgressReport epoch i # evs')
     \<or> evs = GradientStep epoch i # evs'"
    by (auto split: if_splits)
  with ih show ?case by auto
qed

lemma epochs_reports_at_100:
  "epochs adv w n_train n_val es = (evs, r) \<Longrightarrow> \<forall>(e, i)\<in>set (reports evs). i mod 100 = 0"
proof (induction es arbitrary: evs r)
  case Nil
  then show ?case by simp
next
  case (Cons e es)
  obtain a ra where a: "iterations adv w n_train n_val e [0..<n_train] = (a, ra)"
    by (cases "iterations adv w n_train n_val e [0..<n_train]")
  obtain b rb where b: "epochs adv w n_train n_val es = (b, rb)"
    by (cases "epochs adv w n_train n_val es")
  from Cons.prems a b have "evs = a \<or> evs = a @ b" by (auto split: option.splits)
  with iterations_reports_at_100 [OF a] Cons.IH [OF b] show ?case
    by (auto simp: reports_append)
qed

lemma training_session_reports_at_100:
  "training_session adv w p = (evs, r) \<Longrightarrow> \<forall>(e, i)\<in>set (reports evs). i mod 100 = 0"
  by (auto simp: training_session_def split: sum.splits dest: epochs_reports_at_100)

lemma save_no_reports: "save w role path = (s, r) \<Longrightarrow> reports s = []"
  by (auto simp: save_def split: if_splits)

lemma reports_only_at_multiples_of_100:
  assumes "train_vanilla_seq2seq w p = (evs, r) \<or> train_GAN w p = (evs, r)
           \<or> train_partial_GAN w p = (evs, r)"
  shows "\<forall>(e, i)\<in>set (reports evs). i mod 100 = 0"
proof -
  from assms have "train_vanilla_seq2seq w p = (evs, r) \<or> train_GAN w p = (evs, r)"
    by (auto simp: train_partial_GAN_eq)
  then have "\<exists>adv t rt s. training_session adv w p = (t, rt) \<and> reports s = [] \<and> evs = t @ s"
  proof (elim disjE)
    assume v: "train_vanilla_seq2seq w p = (evs, r)"
    obtain t rt where t: "training_session False w p = (t, rt)"
      by (cases "training_session False w p")
    obtain s rs where s: "save w Seq2seq (getcwd w @ ''/saved_models/'' @ model_name p @ ''.h5'') = (s, rs)"
      by (cases "save w Seq2seq (getcwd w @ ''/saved_models/'' @ model_name p @ ''.h5'')")
    from v t s have "evs = t @ [] \<or> evs = t @ s"
      by (auto simp: train_vanilla_seq2seq_def split: option.splits)
    with t save_no_reports [OF s] show ?thesis by (metis reports.simps(1))
  next
    assume v: "train_GAN w p = (evs, r)"
    obtain t rt where t: "training_session True w p = (t, rt)"
      by (cases "training_session True w p")
    obtain s rs where s: "save w Generator (getcwd w @ ''/saved_models/'' @ model_name p @ ''.h5'') = (s, rs)"
      by (cases "save w Generator (getcwd w @ ''/saved_models/'' @ model_name p @ ''.h5'')")
    obtain s' rs' where s': "save w Discriminator (getcwd w @ ''/saved_models/'' @ model_name p @ ''_discriminator.h5'') = (s', rs')"
      by (cases "save w Discriminator (getcwd w @ ''/saved_models/'' @ model_name p @ ''_discriminator.h5'')")
    from v t s s' have "evs = t @ [] \<or> evs = t @ s \<or> evs = t @ (s @ s')"
      by (auto simp: train_GAN_def split: option.splits if_splits)
    moreover have "reports (s @ s') = []"
      using save_no_reports [OF s] save_no_reports [OF s'] by (simp add: reports_append)
    ultimately show ?thesis using t save_no_reports [OF s] by (metis reports.simps(1))
  qed
  then obtain adv t rt s where "training_session adv w p = (t, rt)" "reports s = []" "evs = t @ s"
    by blast
  with training_session_reports_at_100 show ?thesis by (simp add: reports_append)
qed





text \<open>
  Claim C9: on normal completion the vanilla loop has written exactly one model file,
  at the path made of the working directory and the configured model name; each
  adversarial loop has written the generator under the model name, followed by the
  discriminator under the model name with the suffix \<open>_discriminator\<close> if and only
  if the flag \<open>save_discriminator\<close> is set.
\<close>

theorem models_saved_on_completion:
  "(train_vanilla_seq2seq w p = (evs, None) \<longrightarrow>
      saves evs = [(Seq2seq, getcwd w @ ''/saved_models/'' @ model_name p @ ''.h5'')])
   \<and> (train_GAN w p = (evs, None) \<or> train_partial_GAN w p = (evs, None) \<longrightarrow>
      saves evs = (Generator, getcwd w @ ''/saved_models/'' @ model_name p @ ''.h5'')
        # (if save_discriminator p
           then [(Discriminator, getcwd w @ ''/saved_models/'' @ model_name p
                                   @ ''_discriminator.h5'')]
           else []))"
proof (intro conjI impI)
  assume "train_vanilla_seq2seq w p = (evs, None)"
  then obtain t s where
    t: "training_session False w p = (t, None)" and
    s: "save w Seq2seq (getcwd w @ ''/saved_models/'' @ model_name p @ ''.h5'') = (s, None)" and
    evs: "evs = t @ s"
    by (rule train_vanilla_seq2seq_completed)
  obtain X where x: "data_files w ''Training'' ''readme_training.md'' = Inr X"
    using t by (auto elim: training_session_completed)
  show "saves evs = [(Seq2seq, getcwd w @ ''/saved_models/'' @ model_name p @ ''.h5'')]"
    using training_session_events(3) [OF t x] save_events(2) [OF s]
    by (simp add: evs saves_append)
next
  assume "train_GAN w p = (evs, None) \<or> train_partial_GAN w p = (evs, None)"
  then have "train_GAN w p = (evs, None)" by (simp add: train_partial_GAN_eq)
  then obtain t s s' where
    t: "training_session True w p = (t, None)" and
    s: "save w Generator (getcwd w @ ''/saved_models/'' @ model_name p @ ''.h5'') = (s, None)" and
    s': "if save_discriminator p
       then save w Discriminator
              (getcwd w @ ''/saved_models/'' @ model_name p @ ''_discriminator.h5'') = (s', None)
       else s' = []" and
    evs: "evs = t @ s @ s'"
    by (rule train_GAN_completed)
  obtain X where x: "data_files w ''Training'' ''readme_training.md'' = Inr X"
    using t by (auto elim: training_session_completed)
  have "saves s' = (if save_discriminator p
           then [(Discriminator, getcwd w @ ''/saved_models/'' @ model_name p
                                   @ ''_discriminator.h5'')]
           else [])"
    using s' save_events(2) by (cases "save_discriminator p") auto
  then show "saves evs = (Generator, getcwd w @ ''/saved_models/'' @ model_name p @ ''.h5'')
        # (if save_discriminator p
           then [(Discriminator, getcwd w @ ''/saved_models/'' @ model_name p
                                   @ ''_discriminator.h5'')]
           else [])"
    using training_session_events(3) [OF t x] save_events(2) [OF s]
    by (simp add: evs saves_append)
qed

lemma example_quiet_run:
  "train_partial_GAN example_world quiet_params =
     ([GradientStep 0 0, ProgressReport 0 0, GradientStep 0 1, GradientStep 0 2,
       Saved Generator ''/home/saved_models/seq2seq.h5''], None)"
  by code_simp

theorem models_saved_on_completion_witness:
  "train_vanilla_seq2seq example_world example_params =
     ([GradientStep 0 0, ProgressReport 0 0, GradientStep 0 1, GradientStep 0 2,
       Saved Seq2seq ''/home/saved_models/seq2seq.h5''], None)
   \<and> saves [GradientStep 0 0, ProgressReport 0 0, GradientStep 0 1, GradientStep 0 2,
       Saved Seq2seq ''/home/saved_models/seq2seq.h5'']
      = [(Seq2seq, ''/home/saved_models/seq2seq.h5'')]
   \<and> train_GAN example_world example_params =
     ([GradientStep 0 0, ProgressReport 0 0, GradientStep 0 1, GradientStep 0 2,
       Saved Generator ''/home/saved_models/seq2seq.h5'',
       Saved Discriminator ''/home/saved_models/seq2seq_discriminator.h5''], None)
   \<and> saves [GradientStep 0 0, ProgressReport 0 0, GradientStep 0 1, GradientStep 0 2,
       Saved Generator ''/home/saved_models/seq2seq.h5'',
       Saved Discriminator ''/home/saved_models/seq2seq_discriminator.h5'']
      = [(Generator, ''/home/saved_models/seq2seq.h5''),
         (Discriminator, ''/home/saved_models/seq2seq_discriminator.h5'')]
   \<and> train_partial_GAN example_world quiet_params =
     ([GradientStep 0 0, ProgressReport 0 0, GradientStep 0 1, GradientStep 0 2,
       Saved Generator ''/home/saved_models/seq2seq.h5''], None)
   \<and> saves [GradientStep 0 0, ProgressReport 0 0, GradientStep 0 1, GradientStep 0 2,
       Saved Generator ''/home/saved_models/seq2seq.h5'']
      = [(Generator, ''/home/saved_models/seq2seq.h5'')]"
proof -
  have c: "getcwd example_world = ''/home''" "model_name example_params = ''seq2seq''"
    "model_name quiet_params = ''seq2seq''" "save_discriminator example_params"
    "\<not> save_discriminator quiet_params"
    by (simp_all add: example_world_def example_params_def quiet_params_def)
  note a = models_saved_on_completion [of example_world example_params, THEN conjunct1, rule_format, OF example_runs(1)]
  note b = models_saved_on_completion [of example_world example_params, THEN conjunct2, rule_format, OF disjI1 [OF example_runs(2)]]
  note d = models_saved_on_completion [of example_world quiet_params, THEN conjunct2, rule_format, OF disjI2 [OF example_quiet_run]]
  from a b d show ?thesis using example_runs example_quiet_run by (simp add: c)
qed

section \<open>Properties of batch preparation on the store\<close>

lemma extends_refl: "extends h h"
  by (simp add: extends_def)

lemma extends_length: "extends h h' \<Longrightarrow> length h \<le> length h'"
  by (simp add: extends_def)

lemma extends_alloc: "extends h h' \<Longrightarrow> alloc h' a = (h'', b) \<Longrightarrow> extends h h'' \<and> length h \<le> b \<and> b < length h'' \<and> h'' ! b = a \<and> (\<forall>c<length h'. h'' ! c = h' ! c)"
  using extends_length [of h h']
  by (auto simp: alloc_def extends_def nth_append)

lemma extends_update: "extends h h' \<Longrightarrow> length h \<le> b \<Longrightarrow> extends h (h'[b := a])"
  by (simp add: extends_def)

lemma extends_corrupt:
  assumes "extends h h'" and "length h \<le> a" and "corrupt apply in_place h' a p = (h'', b)"
  shows "extends h h'' \<and> length h \<le> b"
proof (cases "h' ! a")
  case (Array2 rows)
  show ?thesis
  proof (cases in_place)
    case True
    with Array2 assms(3) have "h'' = h'[a := Array2 (apply rows p)]" "b = a"
      by (auto simp: corrupt_def)
    then show ?thesis using assms(1,2) by (simp add: extends_update)
  next
    case False
    with Array2 assms(3) have "alloc h' (Array2 (apply rows p)) = (h'', b)"
      by (simp add: corrupt_def)
    from extends_alloc [OF assms(1) this] show ?thesis by simp
  qed
qed (use assms in \<open>simp_all add: corrupt_def\<close>)

lemma process_series_on_extends:
  "extends h (fst (process_series_on window apply dt in_place g h series p))"
proof -
  obtain h1 series1 where a1: "alloc h (Array1 (finite_mask (entries (h ! series)))) = (h1, series1)"
    by (cases "alloc h (Array1 (finite_mask (entries (h ! series))))")
  have e1: "extends h h1" using extends_alloc [OF extends_refl a1] by simp
  show ?thesis
  proof (cases "window (entries (h1 ! series1)) (len_input p)")
    case (Inl e)
    with a1 e1 show ?thesis by (simp add: process_series_on_def)
  next
    case (Inr windows)
    obtain h2 series2 where a2: "alloc h1 (Array2 windows) = (h2, series2)"
      by (cases "alloc h1 (Array2 windows)")
    have e2: "extends h h2" using extends_alloc [OF e1 a2] by simp
    show ?thesis
    proof (cases "sample_rows g windows p")
      case (Inl e)
      with a1 Inr a2 e2 show ?thesis by (simp add: process_series_on_def)
    next
      case sample: (Inr sample)
      obtain h3 series3 where a3: "alloc h2 (Array2 (map (\<lambda>i. windows ! i) sample)) = (h3, series3)"
        by (cases "alloc h2 (Array2 (map (\<lambda>i. windows ! i) sample))")
      have e3: "extends h h3" using extends_alloc [OF e2 a3] by simp
      obtain h4 copy where a4: "alloc h3 (h3 ! series3) = (h4, copy)"
        by (cases "alloc h3 (h3 ! series3)")
      have e4: "extends h h4" and c4: "length h \<le> copy" using extends_alloc [OF e3 a4] by simp_all
      obtain h5 deteriorated where a5: "corrupt apply in_place h4 copy p = (h5, deteriorated)"
        by (cases "corrupt apply in_place h4 copy p")
      have e5: "extends h h5" and c5: "length h \<le> deteriorated"
        using extends_corrupt [OF e4 c4 a5] by simp_all
      let ?h6 = "h5[deteriorated := fill_placeholder_in_place dt (placeholder_value p) (h5 ! deteriorated)]"
      have e6: "extends h ?h6" using e5 c5 by (rule extends_update)
      obtain h7 out1 where a7: "alloc ?h6 (expand_dims_of (?h6 ! series3)) = (h7, out1)"
        by (cases "alloc ?h6 (expand_dims_of (?h6 ! series3))")
      have e7: "extends h h7" using extends_alloc [OF e6 a7] by simp
      obtain h8 out2 where a8: "alloc h7 (expand_dims_of (h7 ! deteriorated)) = (h8, out2)"
        by (cases "alloc h7 (expand_dims_of (h7 ! deteriorated))")
      have e8: "extends h h8" using extends_alloc [OF e7 a8] by simp
      have "process_series_on window apply dt in_place g h series p = (h8, Inr (out1, out2))"
        using a1 Inr a2 sample a3 a4 a5 a7 a8
        by (simp add: process_series_on_def Let_def)
      with e8 show ?thesis by simp
    qed
  qed
qed

text \<open>
  The store model computes what the value model computes: the two addresses returned
  hold the clean and the corrupted batch of \<open>process_series\<close>, and an exception of
  one is the exception of the other.
\<close>

lemma process_series_on_result:
  assumes "process_series window apply dt g (entries (h ! series)) p = Inr (clean, corrupted)"
  shows "\<exists>h' c d. process_series_on window apply dt in_place g h series p = (h', Inr (c, d))
           \<and> h' ! c = Array3 clean \<and> h' ! d = Array3 corrupted"
proof -
  from assms obtain windows sample where
    w: "window (finite_mask (entries (h ! series))) (len_input p) = Inr windows" and
    s: "sample_rows g windows p = Inr sample" and
    cl: "clean = expand_dims (map (\<lambda>i. windows ! i) sample)" and
    co: "corrupted = expand_dims (fill_placeholder dt (placeholder_value p)
                   (apply (map (\<lambda>i. windows ! i) sample) p))"
    by (auto simp: process_series_def Let_def split: sum.splits)
  show ?thesis
    by (cases in_place)
       (simp_all add: process_series_on_def alloc_def corrupt_def Let_def w s cl co nth_append)
qed

lemma process_series_on_error:
  assumes "process_series window apply dt g (entries (h ! series)) p = Inl e"
  shows "snd (process_series_on window apply dt in_place g h series p) = Inl e"
  using assms
  by (auto simp: process_series_def process_series_on_def alloc_def Let_def
           split: sum.splits)

text \<open>
  Claim C10: \<open>process_series\<close> never writes into its input array. Whatever the
  collaborators return and whether or not the corruption policy works in place, every
  array that existed before the call, the input series among them, holds the same
  entries after it; this covers the calls that end in an exception.
\<close>

theorem process_series_leaves_arrays_unchanged:
  "take (length h) (fst (process_series_on window apply dt in_place g h series p)) = h
   \<and> (\<forall>a<length h. fst (process_series_on window apply dt in_place g h series p) ! a = h ! a)"
proof -
  let ?h' = "fst (process_series_on window apply dt in_place g h series p)"
  have e: "extends h ?h'" by (rule process_series_on_extends)
  then have t: "take (length h) ?h' = h" by (simp add: extends_def)
  have "?h' ! a = h ! a" if "a < length h" for a
  proof -
    have "take (length h) ?h' ! a = ?h' ! a" using that by simp
    then show ?thesis using t by simp
  qed
  with t show ?thesis by blast
qed

lemma example_store_run:
  "process_series_on RNN_univariate_processing nan_corruption Float64 True zero_rng example_store 1
     example_params
   = ([Array1 [Num 7], Array1 [Num 1, Num 2, Num 3, NaN],
       Array1 [Num 1, Num 2, Num 3], Array2 [[Num 1, Num 2], [Num 2, Num 3]],
       Array2 [[Num 1, Num 2], [Num 2, Num 3]],
       Array2 [[Num 0, Num 2], [Num 0, Num 3]],
       Array3 [[[Num 1], [Num 2]], [[Num 2], [Num 3]]],
       Array3 [[[Num 0], [Num 2]], [[Num 0], [Num 3]]]],
      Inr (6, 7))"
  by (simp add: process_series_on_def alloc_def corrupt_def example_store_def finite_mask_def
      RNN_univariate_processing_def example_params_def sample_rows_def random_choice_def
      zero_rng_def remove_nth_def nan_corruption_def fill_placeholder_def expand_dims_def
      eval_nat_numeral nth_append Let_def)

theorem process_series_leaves_arrays_unchanged_witness:
  "example_store ! 1 = Array1 [Num 1, Num 2, Num 3, NaN]
   \<and> snd (process_series_on RNN_univariate_processing nan_corruption Float64 True zero_rng
            example_store 1 example_params) = Inr (6, 7)
   \<and> fst (process_series_on RNN_univariate_processing nan_corruption Float64 True zero_rng
            example_store 1 example_params) ! 1 = Array1 [Num 1, Num 2, Num 3, NaN]"
proof -
  have l: "1 < length example_store" and v: "example_store ! 1 = Array1 [Num 1, Num 2, Num 3, NaN]"
    by (simp_all add: example_store_def)
  from process_series_leaves_arrays_unchanged
         [of example_store RNN_univariate_processing nan_corruption Float64 True zero_rng 1
             example_params]
  have "fst (process_series_on RNN_univariate_processing nan_corruption Float64 True zero_rng
            example_store 1 example_params) ! 1 = example_store ! 1"
    using l by blast
  then show ?thesis using v example_store_run by simp
qed

end
